theory Spec2Isabelle
  imports Complex_Main
begin

section \<open>BowlingFun: the throw lifecycle of game.js\<close>

text \<open>
  The development embeds the game logic of \<^verbatim>\<open>src/game.js\<close>: the module-level variables
  become one record, each function becomes a state transformer of the same name, and the
  browser (render loop, keyboard, timers) and the physics engine become events of a step
  function.

  What is idealised: JavaScript numbers are real numbers, so rounding and NaN are not
  represented.  Materials, textures, colours, camera, lights and console output are
  presentation and are left out, and so is \<^verbatim>\<open>lastFrameTime\<close>, which no function reads.
  The engine's constructors yield their objects, as the code takes for granted; only
  \<^verbatim>\<open>MergeMeshes\<close>, whose result the code tests, may fail.  The states start where the
  scene has reported ready in phase \<^verbatim>\<open>AIMING\<close> or \<^verbatim>\<open>RESETTING\<close>: the metadata object of
  the scene exists, and the observer for readiness, which then only sets the visibility
  of the aim indicator, is not an event.  A timeout has its delay as data; time itself
  does not pass in the model, any pending timeout may fire next.
\<close>

subsection \<open>Constants\<close>

definition LANE_HEIGHT :: real where "LANE_HEIGHT = 1 / 10"
definition LANE_POS_Y :: real where "LANE_POS_Y = 0"
definition PIN_HEIGHT :: real where "PIN_HEIGHT = 1"
definition PIN_FALLEN_THRESHOLD :: real where "PIN_FALLEN_THRESHOLD = 7 / 10"
definition BALL_DIAMETER :: real where "BALL_DIAMETER = 8 / 10"
definition MIN_LAUNCH_FORCE :: real where "MIN_LAUNCH_FORCE = 20"
definition MAX_LAUNCH_FORCE :: real where "MAX_LAUNCH_FORCE = 150"
definition MAX_CHARGE_TIME :: real where "MAX_CHARGE_TIME = 1500"
definition ARROW_OSCILLATION_SPEED :: real where "ARROW_OSCILLATION_SPEED = 15 / 10"
definition ARROW_MAX_ANGLE :: real where "ARROW_MAX_ANGLE = pi / 6"
definition ARROW_LENGTH_MIN :: real where "ARROW_LENGTH_MIN = 15 / 10"
definition ARROW_LENGTH_MAX :: real where "ARROW_LENGTH_MAX = 4"

definition LANE_TOP_Y :: real where "LANE_TOP_Y = LANE_POS_Y + LANE_HEIGHT / 2"
definition PIN_BASE_OFFSET_Y :: real where "PIN_BASE_OFFSET_Y = PIN_HEIGHT / 2"
definition PIN_START_Y :: real where "PIN_START_Y = LANE_TOP_Y + PIN_BASE_OFFSET_Y"
definition BALL_RADIUS :: real where "BALL_RADIUS = BALL_DIAMETER / 2"
definition BALL_START_Y :: real where "BALL_START_Y = LANE_TOP_Y + BALL_RADIUS"

subsection \<open>Vectors of the engine\<close>

text \<open>
  \<^verbatim>\<open>BABYLON.Vector3\<close> with the operations the game calls.  \<open>normalize\<close> follows the engine:
  a vector of length zero is returned as it is, any other is scaled by the inverse of its
  length.
\<close>

datatype Vector3 = Vector3 (vx: real) (vy: real) (vz: real)

definition Zero :: Vector3 where "Zero = Vector3 0 0 0"
definition AxisY :: Vector3 where "AxisY = Vector3 0 1 0"

definition Dot :: "Vector3 \<Rightarrow> Vector3 \<Rightarrow> real" where
  "Dot a b = vx a * vx b + vy a * vy b + vz a * vz b"

definition lengthSquared :: "Vector3 \<Rightarrow> real" where
  "lengthSquared v = vx v * vx v + vy v * vy v + vz v * vz v"

definition vlength :: "Vector3 \<Rightarrow> real" where
  "vlength v = sqrt (lengthSquared v)"

definition scale :: "Vector3 \<Rightarrow> real \<Rightarrow> Vector3" where
  "scale v k = Vector3 (vx v * k) (vy v * k) (vz v * k)"

definition normalize :: "Vector3 \<Rightarrow> Vector3" where
  "normalize v = (let len = vlength v in
     if len = 0 \<or> len = 1 then v else scale v (1 / len))"

definition BALL_START_POS :: Vector3 where
  "BALL_START_POS = Vector3 0 BALL_START_Y (- 5)"

definition pinPositions :: "Vector3 list" where
  "pinPositions =
    [Vector3 (- (15 / 10)) PIN_START_Y 20, Vector3 (- (5 / 10)) PIN_START_Y 20,
     Vector3 (5 / 10) PIN_START_Y 20, Vector3 (15 / 10) PIN_START_Y 20,
     Vector3 (- 1) PIN_START_Y 19, Vector3 0 PIN_START_Y 19, Vector3 1 PIN_START_Y 19,
     Vector3 (- (5 / 10)) PIN_START_Y 18, Vector3 (5 / 10) PIN_START_Y 18,
     Vector3 0 PIN_START_Y 17]"

subsection \<open>Scene objects and module state\<close>

datatype GameState = AIMING | CHARGING | BALL_ROLLING | RESETTING | ENDED

text \<open>
  The physics body of the ball.  Both velocity accessors of the engine may answer
  \<^verbatim>\<open>null\<close>, hence the options; \<open>appliedImpulses\<close> logs the calls of
  \<^verbatim>\<open>applyImpulse(impulse, contactPoint)\<close>, most recent last.
\<close>

record PhysicsImpostor =
  linearVelocity :: "Vector3 option"
  angularVelocity :: "Vector3 option"
  appliedImpulses :: "(Vector3 \<times> Vector3) list"

record Ball =
  position :: Vector3
  physicsImpostor :: "PhysicsImpostor option"

text \<open>
  A pin mesh.  \<open>localUp\<close> is the world-space image of the pin's local Y axis as the engine
  computes it (\<^verbatim>\<open>TransformNormal(Axis.Y, worldMatrix)\<close> or \<^verbatim>\<open>getDirection(Axis.Y)\<close>);
  \<open>pin_physicsImpostor\<close> tells whether the mesh has a physics body.
\<close>

record Pin =
  pin_position :: Vector3
  localUp :: Vector3
  pin_physicsImpostor :: bool

record Arrow =
  rotation_z :: real
  scaling_y :: real
  isVisible :: bool
  arrow_position :: Vector3

text \<open>The two deferred callbacks the game hands to \<^verbatim>\<open>setTimeout\<close>.\<close>

datatype Callback = StoppedReset | ToAiming

text \<open>
  The module-level variables.  \<open>resetTimer\<close> is \<^verbatim>\<open>currentScene.metadata.resetTimer\<close>
  (the metadata object exists once the scene has reported ready); \<open>timers\<close> and
  \<open>nextTimerId\<close> are the browser's table of pending timeouts (handle, delay in
  milliseconds, callback); \<open>scoreText\<close> is the number the score text block shows, if the
  block exists; \<open>clock\<close> is the latest reading of \<^verbatim>\<open>performance.now()\<close>.
\<close>

record Game =
  bowlingBall :: "Ball option"
  pins :: "Pin option list"
  directionArrow :: "Arrow option"
  score :: int
  scoreText :: "int option"
  fallenPinIndicesThisThrow :: "nat set"
  currentGameState :: GameState
  currentAimAngle :: real
  chargeStartTime :: real
  launchPower :: real
  resetTimer :: "nat option"
  timers :: "(nat \<times> real \<times> Callback) list"
  nextTimerId :: nat
  clock :: real

subsection \<open>Helper functions of game.js\<close>

definition updateScoreDisplay :: "Game \<Rightarrow> Game" where
  "updateScoreDisplay g =
     (case scoreText g of None \<Rightarrow> g | Some _ \<Rightarrow> g\<lparr>scoreText := Some (score g)\<rparr>)"

definition arrowStartPos :: Vector3 where
  "arrowStartPos =
     Vector3 (vx BALL_START_POS) (vy BALL_START_POS + 1 / 10)
       (vz BALL_START_POS + (BALL_RADIUS + 2 / 10))"

text \<open>
  \<open>merged\<close> is the answer of the engine's \<^verbatim>\<open>MergeMeshes\<close>: when it yields no mesh the
  function returns \<^verbatim>\<open>null\<close>.
\<close>

definition createDirectionArrow :: "bool \<Rightarrow> Arrow option" where
  "createDirectionArrow merged =
     (if \<not> merged then None
      else Some \<lparr>rotation_z = 0, scaling_y = ARROW_LENGTH_MIN, isVisible = False,
                 arrow_position = arrowStartPos\<rparr>)"

definition updateArrowAiming :: "Arrow \<Rightarrow> real \<Rightarrow> Game \<Rightarrow> Game" where
  "updateArrowAiming arrow time g =
     (let angle = sin (time * ARROW_OSCILLATION_SPEED) * ARROW_MAX_ANGLE in
      g\<lparr>currentAimAngle := angle,
        directionArrow := Some (arrow\<lparr>rotation_z := angle\<rparr>)\<rparr>)"

definition chargeRatio :: "real \<Rightarrow> real" where
  "chargeRatio chargedTime = min (chargedTime / MAX_CHARGE_TIME) 1"

definition updateArrowCharging :: "Arrow \<Rightarrow> real \<Rightarrow> Game \<Rightarrow> Game" where
  "updateArrowCharging arrow chargedTime g =
     g\<lparr>launchPower :=
          MIN_LAUNCH_FORCE + (MAX_LAUNCH_FORCE - MIN_LAUNCH_FORCE) * chargeRatio chargedTime,
       directionArrow :=
          Some (arrow\<lparr>scaling_y :=
            ARROW_LENGTH_MIN + (ARROW_LENGTH_MAX - ARROW_LENGTH_MIN) * chargeRatio chargedTime\<rparr>)\<rparr>"

subsection \<open>Scoring pass\<close>

definition pinUpDot :: "Pin \<Rightarrow> real" where
  "pinUpDot pin = Dot (normalize (localUp pin)) AxisY"

text \<open>
  The body of the \<^verbatim>\<open>forEach\<close> callback of \<open>checkFallenPins\<close>; the second component
  of the state is the local counter \<^verbatim>\<open>pinsDownThisCheck\<close>.
\<close>

fun checkPin :: "nat \<times> Pin option \<Rightarrow> Game \<times> nat \<Rightarrow> Game \<times> nat" where
  "checkPin (index, None) (g, pinsDownThisCheck) = (g, pinsDownThisCheck)"
| "checkPin (index, Some pin) (g, pinsDownThisCheck) =
     (if pin_physicsImpostor pin \<and> index \<notin> fallenPinIndicesThisThrow g then
        (if pinUpDot pin < PIN_FALLEN_THRESHOLD then
           (g\<lparr>score := score g + 1,
              fallenPinIndicesThisThrow := insert index (fallenPinIndicesThisThrow g)\<rparr>,
            pinsDownThisCheck + 1)
         else (g, pinsDownThisCheck))
      else (g, pinsDownThisCheck))"

definition checkFallenPins :: "Game \<Rightarrow> Game" where
  "checkFallenPins g =
     (case fold checkPin (enumerate 0 (pins g)) (g, 0) of
        (g', pinsDownThisCheck) \<Rightarrow>
          if pinsDownThisCheck > 0 then updateScoreDisplay g' else g')"

subsection \<open>Settle detector\<close>

text \<open>
  \<open>isBallStopped\<close> returns the value of a \<^verbatim>\<open>&&\<close> chain: \<open>None\<close> stands for the
  \<^verbatim>\<open>null\<close> that the chain yields when a velocity accessor answers \<^verbatim>\<open>null\<close>,
  \<open>Some b\<close> for a boolean.  \<open>truthy\<close> is the test an \<^verbatim>\<open>if\<close> applies to it.
\<close>

definition isBallStopped :: "Game \<Rightarrow> bool option" where
  "isBallStopped g =
     (case bowlingBall g of
        None \<Rightarrow> Some True
      | Some ball \<Rightarrow>
          (case physicsImpostor ball of
             None \<Rightarrow> Some True
           | Some body \<Rightarrow>
               (case linearVelocity body of
                  None \<Rightarrow> None
                | Some linVel \<Rightarrow>
                    (case angularVelocity body of
                       None \<Rightarrow> None
                     | Some angVel \<Rightarrow>
                         Some (lengthSquared linVel < 1 / 10 \<and>
                               lengthSquared angVel < 1 / 10)))))"

definition truthy :: "bool option \<Rightarrow> bool" where
  "truthy v = (case v of None \<Rightarrow> False | Some b \<Rightarrow> b)"

subsection \<open>Timers of the browser\<close>

text \<open>
  \<^verbatim>\<open>setTimeout\<close> enters the callback into the table of pending timeouts and returns a
  fresh handle; \<^verbatim>\<open>clearTimeout\<close> removes the entry with the given handle.  A timer
  handle is a number, tested for truthiness by the game: zero would count as absent.
\<close>

definition setTimeout :: "Callback \<Rightarrow> real \<Rightarrow> Game \<Rightarrow> nat \<times> Game" where
  "setTimeout cb delay g =
     (nextTimerId g,
      g\<lparr>timers := timers g @ [(nextTimerId g, delay, cb)],
        nextTimerId := nextTimerId g + 1\<rparr>)"

definition clearTimeout :: "nat \<Rightarrow> Game \<Rightarrow> Game" where
  "clearTimeout h g = g\<lparr>timers := filter (\<lambda>t. fst t \<noteq> h) (timers g)\<rparr>"

definition timerSet :: "nat option \<Rightarrow> bool" where
  "timerSet h = (case h of None \<Rightarrow> False | Some n \<Rightarrow> n \<noteq> 0)"

subsection \<open>Resets\<close>

definition stopBody :: "PhysicsImpostor \<Rightarrow> PhysicsImpostor" where
  "stopBody body = body\<lparr>linearVelocity := Some Zero, angularVelocity := Some Zero\<rparr>"

definition resetBall :: "Ball \<Rightarrow> Ball" where
  "resetBall ball =
     ball\<lparr>physicsImpostor := map_option stopBody (physicsImpostor ball),
          position := BALL_START_POS\<rparr>"

definition resetArrow :: "Arrow \<Rightarrow> Arrow" where
  "resetArrow arrow =
     arrow\<lparr>rotation_z := 0, scaling_y := ARROW_LENGTH_MIN, isVisible := True,
           arrow_position := arrowStartPos\<rparr>"

definition resetForNextThrow :: "Game \<Rightarrow> Game" where
  "resetForNextThrow g =
     (let g1 = g\<lparr>currentGameState := RESETTING\<rparr>;
          g2 = g1\<lparr>bowlingBall := map_option resetBall (bowlingBall g1)\<rparr>;
          g3 = g2\<lparr>directionArrow := map_option resetArrow (directionArrow g2)\<rparr>;
          g4 = g3\<lparr>fallenPinIndicesThisThrow := {},
                  launchPower := MIN_LAUNCH_FORCE,
                  currentAimAngle := 0\<rparr>
      in snd (setTimeout ToAiming 100 g4))"

definition newPin :: "Vector3 \<Rightarrow> Pin" where
  "newPin pos = \<lparr>pin_position = pos, localUp = AxisY, pin_physicsImpostor = True\<rparr>"

definition newBall :: Ball where
  "newBall =
     \<lparr>position = BALL_START_POS,
      physicsImpostor =
        Some \<lparr>linearVelocity = Some Zero, angularVelocity = Some Zero,
              appliedImpulses = []\<rparr>\<rparr>"

text \<open>
  The full reset.  The engine's constructors yield a ball and ten upright pins with fresh
  bodies at rest; \<open>merged\<close> is passed on to \<open>createDirectionArrow\<close>.
\<close>

definition resetGame :: "bool \<Rightarrow> Game \<Rightarrow> Game" where
  "resetGame merged g =
     (let g1 = g\<lparr>currentGameState := RESETTING\<rparr>;
          g2 = g1\<lparr>bowlingBall := None, pins := [], directionArrow := None\<rparr>;
          g3 = g2\<lparr>pins := pins g2 @ map (\<lambda>pos. Some (newPin pos)) pinPositions\<rparr>;
          g4 = g3\<lparr>bowlingBall := Some newBall\<rparr>;
          g5 = g4\<lparr>directionArrow := createDirectionArrow merged\<rparr>;
          g6 = g5\<lparr>score := 0\<rparr>;
          g7 = updateScoreDisplay g6
      in resetForNextThrow g7)"

subsection \<open>Render loop\<close>

text \<open>
  One pass of the function given to \<^verbatim>\<open>engine.runRenderLoop\<close>, at clock reading
  \<open>now\<close> (milliseconds).  The case \<^verbatim>\<open>ENDED\<close> has no branch in the \<^verbatim>\<open>switch\<close>.
\<close>

definition rollingTick :: "Game \<Rightarrow> Game" where
  "rollingTick g =
     (let g1 = g\<lparr>directionArrow :=
                  map_option (\<lambda>a. a\<lparr>isVisible := False\<rparr>) (directionArrow g)\<rparr>;
          g2 = checkFallenPins g1
      in if truthy (isBallStopped g2) then
           (if \<not> timerSet (resetTimer g2) then
              (case setTimeout StoppedReset 500 g2 of
                 (h, g3) \<Rightarrow> g3\<lparr>resetTimer := Some h\<rparr>)
            else g2)
         else
           (if timerSet (resetTimer g2) then
              (clearTimeout (the (resetTimer g2)) g2)\<lparr>resetTimer := None\<rparr>
            else g2))"

definition tick :: "real \<Rightarrow> Game \<Rightarrow> Game" where
  "tick now g0 =
     (let g = g0\<lparr>clock := now\<rparr>;
          timeSeconds = now / 1000
      in case currentGameState g of
           AIMING \<Rightarrow>
             (case directionArrow g of
                None \<Rightarrow> g
              | Some arrow \<Rightarrow> updateArrowAiming (arrow\<lparr>isVisible := True\<rparr>) timeSeconds g)
         | CHARGING \<Rightarrow>
             (case directionArrow g of
                None \<Rightarrow> g
              | Some arrow \<Rightarrow> updateArrowCharging arrow (now - chargeStartTime g) g)
         | BALL_ROLLING \<Rightarrow> rollingTick g
         | RESETTING \<Rightarrow> g
         | ENDED \<Rightarrow> g)"

subsection \<open>Keyboard\<close>

definition isSpace :: "string \<Rightarrow> string \<Rightarrow> bool" where
  "isSpace key code = (key = '' '' \<or> code = ''Space'')"

definition isR :: "string \<Rightarrow> bool" where
  "isR key = (key = ''r'' \<or> key = ''R'')"

definition keydown :: "string \<Rightarrow> string \<Rightarrow> real \<Rightarrow> Game \<Rightarrow> Game" where
  "keydown key code now g =
     (if isSpace key code \<and> currentGameState g = AIMING then
        (let g1 = g\<lparr>currentGameState := CHARGING, chargeStartTime := now, clock := now\<rparr>
         in case directionArrow g1 of
              None \<Rightarrow> g1
            | Some arrow \<Rightarrow> updateArrowCharging arrow 0 g1)
      else g)"

definition launchDirection :: "real \<Rightarrow> Vector3" where
  "launchDirection aimAngle = normalize (Vector3 (- sin aimAngle) 0 (cos aimAngle))"

definition applyImpulse :: "Vector3 \<Rightarrow> Vector3 \<Rightarrow> PhysicsImpostor \<Rightarrow> PhysicsImpostor" where
  "applyImpulse impulse contactPoint body =
     body\<lparr>appliedImpulses := appliedImpulses body @ [(impulse, contactPoint)]\<rparr>"

definition launch :: "Game \<Rightarrow> Game" where
  "launch g =
     (let g1 = g\<lparr>currentGameState := BALL_ROLLING\<rparr>;
          g2 = (case bowlingBall g1 of
                  None \<Rightarrow> g1
                | Some ball \<Rightarrow>
                    (case physicsImpostor ball of
                       None \<Rightarrow> g1
                     | Some body \<Rightarrow>
                         g1\<lparr>bowlingBall := Some (ball\<lparr>physicsImpostor :=
                              Some (applyImpulse
                                      (scale (launchDirection (currentAimAngle g1))
                                         (launchPower g1))
                                      (position ball) body)\<rparr>)\<rparr>))
      in g2\<lparr>directionArrow :=
              map_option (\<lambda>a. a\<lparr>isVisible := False\<rparr>) (directionArrow g2)\<rparr>)"

text \<open>
  The \<^verbatim>\<open>keyup\<close> listener: the launch on the space bar, then the full reset on R.
  \<open>merged\<close> is the answer \<^verbatim>\<open>MergeMeshes\<close> gives should the reset run.
\<close>

definition keyup :: "string \<Rightarrow> string \<Rightarrow> bool \<Rightarrow> Game \<Rightarrow> Game" where
  "keyup key code merged g =
     (let g1 = (if isSpace key code \<and> currentGameState g = CHARGING then launch g else g)
      in if isR key \<and> currentGameState g1 \<noteq> RESETTING then
           (let g2 = (if timerSet (resetTimer g1) then
                        (clearTimeout (the (resetTimer g1)) g1)\<lparr>resetTimer := None\<rparr>
                      else g1)
            in resetGame merged g2)
         else g1)"

subsection \<open>Deferred callbacks\<close>

definition stoppedResetCallback :: "Game \<Rightarrow> Game" where
  "stoppedResetCallback g = (resetForNextThrow g)\<lparr>resetTimer := None\<rparr>"

definition toAimingCallback :: "Game \<Rightarrow> Game" where
  "toAimingCallback g =
     (if currentGameState g = RESETTING then g\<lparr>currentGameState := AIMING\<rparr> else g)"

fun runCallback :: "Callback \<Rightarrow> Game \<Rightarrow> Game" where
  "runCallback StoppedReset g = stoppedResetCallback g"
| "runCallback ToAiming g = toAimingCallback g"

text \<open>
  The browser fires the pending timeout with handle \<open>h\<close>: the entry leaves the table and
  its callback runs.  A handle that is not pending (never issued, already fired, or
  cleared) fires nothing.
\<close>

definition timeout :: "nat \<Rightarrow> Game \<Rightarrow> Game" where
  "timeout h g =
     (case find (\<lambda>t. fst t = h) (timers g) of
        None \<Rightarrow> g
      | Some (_, _, cb) \<Rightarrow> runCallback cb (clearTimeout h g))"

subsection \<open>Physics world\<close>

text \<open>
  The engine integrates the bodies between the passes of the game logic.  Its result is
  an input of the model: new position and velocities for the ball's body and a new position
  and up-vector for each pin that has a body.  Objects without a body are left alone.
\<close>

record BallMotion =
  newPosition :: Vector3
  newLinearVelocity :: "Vector3 option"
  newAngularVelocity :: "Vector3 option"

definition moveBall :: "BallMotion \<Rightarrow> Ball \<Rightarrow> Ball" where
  "moveBall m ball =
     (case physicsImpostor ball of
        None \<Rightarrow> ball
      | Some body \<Rightarrow>
          ball\<lparr>position := newPosition m,
               physicsImpostor :=
                 Some (body\<lparr>linearVelocity := newLinearVelocity m,
                            angularVelocity := newAngularVelocity m\<rparr>)\<rparr>)"

fun movePin :: "Pin option \<times> (Vector3 \<times> Vector3) \<Rightarrow> Pin option" where
  "movePin (None, _) = None"
| "movePin (Some pin, (pos, up)) =
     (if pin_physicsImpostor pin then Some (pin\<lparr>pin_position := pos, localUp := up\<rparr>)
      else Some pin)"

definition movePins :: "(Vector3 \<times> Vector3) list \<Rightarrow> Pin option list \<Rightarrow> Pin option list" where
  "movePins ms ps = map movePin (zip ps ms) @ drop (length ms) ps"

definition physicsStep :: "BallMotion \<Rightarrow> (Vector3 \<times> Vector3) list \<Rightarrow> Game \<Rightarrow> Game" where
  "physicsStep m ms g =
     g\<lparr>bowlingBall := map_option (moveBall m) (bowlingBall g),
       pins := movePins ms (pins g)\<rparr>"

subsection \<open>The game as a transition system\<close>

datatype Event =
    Tick real
  | KeyDown string string real
  | KeyUp string string bool
  | Timeout nat
  | Physics BallMotion "(Vector3 \<times> Vector3) list"

fun step :: "Event \<Rightarrow> Game \<Rightarrow> Game" where
  "step (Tick now) g = tick now g"
| "step (KeyDown key code now) g = keydown key code now g"
| "step (KeyUp key code merged) g = keyup key code merged g"
| "step (Timeout h) g = timeout h g"
| "step (Physics m ms) g = physicsStep m ms g"

text \<open>The clock of the browser never runs backwards.\<close>

fun admissible :: "Event \<Rightarrow> Game \<Rightarrow> bool" where
  "admissible (Tick now) g = (clock g \<le> now)"
| "admissible (KeyDown key code now) g = (clock g \<le> now)"
| "admissible _ g = True"

text \<open>
  The variables as the module initialises them, and the state \<^verbatim>\<open>createScene\<close> leaves:
  the GUI creates the score text block, then the full reset runs once.
\<close>

definition moduleInit :: Game where
  "moduleInit =
     \<lparr>bowlingBall = None, pins = [], directionArrow = None, score = 0,
      scoreText = None, fallenPinIndicesThisThrow = {}, currentGameState = AIMING,
      currentAimAngle = 0, chargeStartTime = 0, launchPower = MIN_LAUNCH_FORCE,
      resetTimer = None, timers = [], nextTimerId = 1, clock = 0\<rparr>"

definition createScene :: "bool \<Rightarrow> Game" where
  "createScene merged = resetGame merged (moduleInit\<lparr>scoreText := Some 0\<rparr>)"

inductive reachable :: "Game \<Rightarrow> bool" where
  reach_start: "reachable (createScene merged)"
| reach_step: "reachable g \<Longrightarrow> admissible e g \<Longrightarrow> reachable (step e g)"

subsection \<open>Notions used in the statements and proofs\<close>

text \<open>
  The test \<open>checkFallenPins\<close> applies to one pin, apart from the membership in the fallen
  set; the indices a pass over the pins \<open>ps\<close>, numbered from \<open>k\<close>, detects when \<open>F\<close>
  is the fallen set; and the indices a pass detects in a state.
\<close>

definition pinFallen :: "Pin option \<Rightarrow> bool" where
  "pinFallen p =
     (case p of None \<Rightarrow> False
      | Some pin \<Rightarrow> pin_physicsImpostor pin \<and> pinUpDot pin < PIN_FALLEN_THRESHOLD)"

definition detected :: "nat \<Rightarrow> Pin option list \<Rightarrow> nat set \<Rightarrow> nat set" where
  "detected k ps F =
     set (filter (\<lambda>i. i \<notin> F \<and> pinFallen (ps ! (i - k))) [k..<k + length ps])"

definition newlyFallen :: "Game \<Rightarrow> nat set" where
  "newlyFallen g = detected 0 (pins g) (fallenPinIndicesThisThrow g)"

text \<open>
  What holds in every reachable state: the ten pins and the ball exist with their bodies;
  the score is not negative and the fallen set holds pin indices; launch power and aim
  angle are in their ranges and charging did not start in the future.
\<close>

definition sceneBuilt :: "Game \<Rightarrow> bool" where
  "sceneBuilt g \<longleftrightarrow>
     length (pins g) = 10 \<and>
     (\<forall>p \<in> set (pins g). \<exists>pin. p = Some pin \<and> pin_physicsImpostor pin) \<and>
     (\<exists>ball body. bowlingBall g = Some ball \<and> physicsImpostor ball = Some body)"

definition scoreOk :: "Game \<Rightarrow> bool" where
  "scoreOk g \<longleftrightarrow>
     0 \<le> score g \<and> fallenPinIndicesThisThrow g \<subseteq> {..<length (pins g)}"

definition powerOk :: "Game \<Rightarrow> bool" where
  "powerOk g \<longleftrightarrow>
     MIN_LAUNCH_FORCE \<le> launchPower g \<and> launchPower g \<le> MAX_LAUNCH_FORCE \<and>
     - ARROW_MAX_ANGLE \<le> currentAimAngle g \<and> currentAimAngle g \<le> ARROW_MAX_ANGLE \<and>
     chargeStartTime g \<le> clock g"

text \<open>
  The table of pending timeouts: handles are positive, fresh and pairwise different; a
  settle callback is pending exactly as \<open>resetTimer\<close> says, and only while rolling; a
  callback to \<^verbatim>\<open>AIMING\<close> is pending only while resetting, and at most one is.
\<close>

definition idsOk :: "(nat \<times> real \<times> Callback) list \<Rightarrow> nat \<Rightarrow> bool" where
  "idsOk ts n \<longleftrightarrow>
     0 < n \<and> distinct (map fst ts) \<and> (\<forall>t \<in> set ts. fst t \<noteq> 0 \<and> fst t < n)"

definition settleOk :: "(nat \<times> real \<times> Callback) list \<Rightarrow> nat option \<Rightarrow> GameState \<Rightarrow> bool" where
  "settleOk ts r st \<longleftrightarrow>
     (\<forall>h. r = Some h \<longrightarrow> st = BALL_ROLLING \<and> (h, 500, StoppedReset) \<in> set ts) \<and>
     (\<forall>t \<in> set ts. snd (snd t) = StoppedReset \<longrightarrow> r = Some (fst t))"

definition aimOk :: "(nat \<times> real \<times> Callback) list \<Rightarrow> GameState \<Rightarrow> bool" where
  "aimOk ts st \<longleftrightarrow>
     (\<forall>t \<in> set ts. snd (snd t) = ToAiming \<longrightarrow> st = RESETTING \<and> fst (snd t) = 100) \<and>
     (\<forall>t \<in> set ts. \<forall>t' \<in> set ts.
        snd (snd t) = ToAiming \<and> snd (snd t') = ToAiming \<longrightarrow> fst t = fst t')"

definition noAim :: "(nat \<times> real \<times> Callback) list \<Rightarrow> bool" where
  "noAim ts \<longleftrightarrow> (\<forall>t \<in> set ts. snd (snd t) \<noteq> ToAiming)"

definition timersOk :: "Game \<Rightarrow> bool" where
  "timersOk g \<longleftrightarrow>
     idsOk (timers g) (nextTimerId g) \<and>
     settleOk (timers g) (resetTimer g) (currentGameState g) \<and>
     aimOk (timers g) (currentGameState g)"

definition invariant :: "Game \<Rightarrow> bool" where
  "invariant g \<longleftrightarrow> sceneBuilt g \<and> scoreOk g \<and> powerOk g \<and> timersOk g"

text \<open>
  A run of events, and the events that belong to a ball rolling: passes of the render
  loop and steps of the physics engine.
\<close>

definition run :: "Event list \<Rightarrow> Game \<Rightarrow> Game" where
  "run es g = fold step es g"

fun rollEvent :: "Event \<Rightarrow> bool" where
  "rollEvent (Tick now) = True"
| "rollEvent (Physics m ms) = True"
| "rollEvent _ = False"

text \<open>
  The two kinds of step that start a new throw: the R key outside \<^verbatim>\<open>RESETTING\<close>, which
  runs \<open>resetGame\<close>, and the firing of a pending settle callback, which runs
  \<open>resetForNextThrow\<close>.
\<close>

fun fullReset :: "Event \<Rightarrow> Game \<Rightarrow> bool" where
  "fullReset (KeyUp key code merged) g = (isR key \<and> currentGameState g \<noteq> RESETTING)"
| "fullReset _ g = False"

fun throwReset :: "Event \<Rightarrow> Game \<Rightarrow> bool" where
  "throwReset (Timeout h) g =
     list_ex (\<lambda>t. fst t = h \<and> snd (snd t) = StoppedReset) (timers g)"
| "throwReset _ g = False"


subsection \<open>Sample runs\<close>

text \<open>
  Concrete states, each reached from \<open>createScene\<close> by the events shown: a throw that
  aims straight and charges for 750 ms, knocks pin 0 over, comes to rest and is reset; a
  throw aimed at \<open>pi / 6\<close> and charged to full power; a scene whose aim indicator could
  not be built; and three states of a rolling ball without a ball, without a body, and
  with a velocity the engine does not report.
\<close>

definition startArrow :: Arrow where
  "startArrow = \<lparr>rotation_z = 0, scaling_y = ARROW_LENGTH_MIN, isVisible = True,
                  arrow_position = arrowStartPos\<rparr>"

definition aimingGame :: Game where
  "aimingGame = step (Timeout 1) (createScene True)"

definition chargingGame :: Game where
  "chargingGame = step (KeyDown '' '' ''Space'' 1000) aimingGame"

definition heldGame :: Game where
  "heldGame = step (Tick 1750) chargingGame"

definition rollingGame :: Game where
  "rollingGame = step (KeyUp '' '' ''Space'' True) heldGame"

definition ballMoving :: BallMotion where
  "ballMoving = \<lparr>newPosition = Vector3 0 BALL_START_Y 16,
      newLinearVelocity = Some (Vector3 0 0 2), newAngularVelocity = Some Zero\<rparr>"

definition ballAtRest :: BallMotion where
  "ballAtRest = \<lparr>newPosition = Vector3 0 BALL_START_Y 21,
      newLinearVelocity = Some Zero, newAngularVelocity = Some Zero\<rparr>"

definition nullVelocity :: BallMotion where
  "nullVelocity = \<lparr>newPosition = BALL_START_POS, newLinearVelocity = None,
      newAngularVelocity = Some Zero\<rparr>"

definition pinDown :: "Vector3 \<times> Vector3" where
  "pinDown = (Vector3 (- (15 / 10)) PIN_START_Y 20, Vector3 1 0 0)"

definition pinUp :: "Vector3 \<times> Vector3" where
  "pinUp = (Vector3 (- (15 / 10)) PIN_START_Y 20, Vector3 0 1 0)"

definition struckGame :: Game where
  "struckGame = step (Physics ballMoving [pinDown]) rollingGame"

definition wobble :: "Event list" where
  "wobble = [Tick 2000, Physics ballMoving [pinUp], Tick 2016, Physics ballMoving [pinDown],
             Tick 2032]"

definition scoredGame :: Game where
  "scoredGame = step (Tick 2000) struckGame"

definition restGame :: Game where
  "restGame = step (Physics ballAtRest [pinDown]) scoredGame"

definition settlingGame :: Game where
  "settlingGame = step (Tick 2500) restGame"



definition aimedGame :: Game where
  "aimedGame = step (Tick (1000 * pi / 3)) aimingGame"

definition aimedCharging :: Game where
  "aimedCharging = step (KeyDown ''q'' ''Space'' 2000) aimedGame"

definition aimedHeld :: Game where
  "aimedHeld = step (Tick 3500) aimedCharging"

definition aimedLaunched :: Game where
  "aimedLaunched = step (KeyUp '' '' ''Space'' True) aimedHeld"


definition noBallGame :: Game where
  "noBallGame = rollingGame\<lparr>bowlingBall := None\<rparr>"

definition noBodyGame :: Game where
  "noBodyGame = rollingGame\<lparr>bowlingBall :=
     Some \<lparr>position = BALL_START_POS, physicsImpostor = None\<rparr>\<rparr>"

definition nullVelocityGame :: Game where
  "nullVelocityGame = step (Physics nullVelocity []) rollingGame"

section \<open>Properties\<close>

subsection \<open>The scoring pass as a set\<close>

lemma detected_set:
  "detected k ps F = {i. k \<le> i \<and> i < k + length ps \<and> i \<notin> F \<and> pinFallen (ps ! (i - k))}"
  by (auto simp: detected_def)

lemma finite_detected: "finite (detected k ps F)"
proof -
  have "detected k ps F \<subseteq> {..<k + length ps}" by (auto simp: detected_set)
  then show ?thesis by (rule finite_subset) simp
qed

lemma nth_shift: "k < i \<Longrightarrow> (p # ps) ! (i - k) = ps ! (i - Suc k)"
proof -
  assume "k < i"
  then have "i - k = Suc (i - Suc k)" by simp
  then show ?thesis by simp
qed

lemma detected_shift:
  assumes "i \<noteq> k"
  shows "i \<in> detected k (p # ps) F \<longleftrightarrow> i \<in> detected (Suc k) ps F"
proof (cases "k < i")
  case True
  then show ?thesis by (simp add: detected_set nth_shift) 
next
  case False
  with assms have "i < k" by simp
  then show ?thesis by (simp add: detected_set)
qed

lemma detected_insert: "i \<noteq> k \<Longrightarrow> i \<in> detected j ps (insert k F) \<longleftrightarrow> i \<in> detected j ps F"
  by (simp add: detected_set)

lemma detected_Nil: "detected k [] F = {}"
  by (auto simp: detected_set)

lemma detected_Cons_hit:
  assumes "pinFallen p" "k \<notin> F"
  shows "detected k (p # ps) F = insert k (detected (Suc k) ps (insert k F))"
    and "k \<notin> detected (Suc k) ps (insert k F)"
proof -
  show "k \<notin> detected (Suc k) ps (insert k F)" by (simp add: detected_set)
  show "detected k (p # ps) F = insert k (detected (Suc k) ps (insert k F))"
  proof (rule set_eqI)
    fix i
    show "i \<in> detected k (p # ps) F \<longleftrightarrow> i \<in> insert k (detected (Suc k) ps (insert k F))"
    proof (cases "i = k")
      case True
      with assms show ?thesis by (simp add: detected_set)
    next
      case False
      then show ?thesis by (simp add: detected_shift detected_insert)
    qed
  qed
qed

lemma detected_Cons_miss:
  assumes "\<not> (pinFallen p \<and> k \<notin> F)"
  shows "detected k (p # ps) F = detected (Suc k) ps F"
proof (rule set_eqI)
  fix i
  show "i \<in> detected k (p # ps) F \<longleftrightarrow> i \<in> detected (Suc k) ps F"
  proof (cases "i = k")
    case True
    with assms show ?thesis by (auto simp: detected_set)
  next
    case False
    then show ?thesis by (simp add: detected_shift)
  qed
qed

lemma checkPin_hit:
  "pinFallen p \<Longrightarrow> k \<notin> fallenPinIndicesThisThrow g \<Longrightarrow>
   checkPin (k, p) (g, n) =
     (g\<lparr>score := score g + 1,
        fallenPinIndicesThisThrow := insert k (fallenPinIndicesThisThrow g)\<rparr>, n + 1)"
  by (cases p) (auto simp: pinFallen_def)

lemma checkPin_miss:
  "\<not> (pinFallen p \<and> k \<notin> fallenPinIndicesThisThrow g) \<Longrightarrow> checkPin (k, p) (g, n) = (g, n)"
  by (cases p) (auto simp: pinFallen_def)

lemma fold_checkPin:
  "fold checkPin (enumerate k ps) (g, n) =
     (g\<lparr>score := score g + int (card (detected k ps (fallenPinIndicesThisThrow g))),
        fallenPinIndicesThisThrow :=
          fallenPinIndicesThisThrow g \<union> detected k ps (fallenPinIndicesThisThrow g)\<rparr>,
      n + card (detected k ps (fallenPinIndicesThisThrow g)))"
proof (induction ps arbitrary: k g n)
  case Nil
  show ?case by (simp add: detected_Nil)
next
  case (Cons p ps)
  show ?case
  proof (cases "pinFallen p \<and> k \<notin> fallenPinIndicesThisThrow g")
    case True
    then have hit: "pinFallen p" "k \<notin> fallenPinIndicesThisThrow g" by simp_all
    note d = detected_Cons_hit [OF hit, of ps]
    have c: "card (insert k (detected (Suc k) ps (insert k (fallenPinIndicesThisThrow g)))) =
             Suc (card (detected (Suc k) ps (insert k (fallenPinIndicesThisThrow g))))"
      using d(2) by (simp add: finite_detected)
    show ?thesis
      by (simp add: checkPin_hit [OF hit] Cons.IH d(1) c)
  next
    case False
    show ?thesis
      by (simp add: checkPin_miss [OF False] Cons.IH detected_Cons_miss [OF False])
  qed
qed

lemma checkFallenPins_eq:
  "checkFallenPins g =
     (let g' = g\<lparr>score := score g + int (card (newlyFallen g)),
                 fallenPinIndicesThisThrow := fallenPinIndicesThisThrow g \<union> newlyFallen g\<rparr>
      in if newlyFallen g \<noteq> {} then updateScoreDisplay g' else g')"
  by (simp add: checkFallenPins_def fold_checkPin newlyFallen_def Let_def finite_detected card_gt_0_iff)

subsection \<open>What each operation changes\<close>

lemma updateScoreDisplay_fields [simp]:
  "bowlingBall (updateScoreDisplay g) = bowlingBall g"
  "pins (updateScoreDisplay g) = pins g"
  "directionArrow (updateScoreDisplay g) = directionArrow g"
  "score (updateScoreDisplay g) = score g"
  "fallenPinIndicesThisThrow (updateScoreDisplay g) = fallenPinIndicesThisThrow g"
  "currentGameState (updateScoreDisplay g) = currentGameState g"
  "currentAimAngle (updateScoreDisplay g) = currentAimAngle g"
  "chargeStartTime (updateScoreDisplay g) = chargeStartTime g"
  "launchPower (updateScoreDisplay g) = launchPower g"
  "resetTimer (updateScoreDisplay g) = resetTimer g"
  "timers (updateScoreDisplay g) = timers g"
  "nextTimerId (updateScoreDisplay g) = nextTimerId g"
  "clock (updateScoreDisplay g) = clock g"
  by (simp_all add: updateScoreDisplay_def split: option.splits)

lemma checkFallenPins_fields [simp]:
  "bowlingBall (checkFallenPins g) = bowlingBall g"
  "pins (checkFallenPins g) = pins g"
  "directionArrow (checkFallenPins g) = directionArrow g"
  "score (checkFallenPins g) = score g + int (card (newlyFallen g))"
  "fallenPinIndicesThisThrow (checkFallenPins g) = fallenPinIndicesThisThrow g \<union> newlyFallen g"
  "currentGameState (checkFallenPins g) = currentGameState g"
  "currentAimAngle (checkFallenPins g) = currentAimAngle g"
  "chargeStartTime (checkFallenPins g) = chargeStartTime g"
  "launchPower (checkFallenPins g) = launchPower g"
  "resetTimer (checkFallenPins g) = resetTimer g"
  "timers (checkFallenPins g) = timers g"
  "nextTimerId (checkFallenPins g) = nextTimerId g"
  "clock (checkFallenPins g) = clock g"
  by (simp_all add: checkFallenPins_eq Let_def)

lemma isBallStopped_cong: "bowlingBall g' = bowlingBall g \<Longrightarrow> isBallStopped g' = isBallStopped g"
  by (simp add: isBallStopped_def)

lemma newlyFallen_cong:
  "pins g' = pins g \<Longrightarrow> fallenPinIndicesThisThrow g' = fallenPinIndicesThisThrow g \<Longrightarrow>
   newlyFallen g' = newlyFallen g"
  by (simp add: newlyFallen_def)

lemma isBallStopped_pre [simp]:
  "isBallStopped (checkFallenPins (g\<lparr>directionArrow := a\<rparr>)) = isBallStopped g"
  by (rule isBallStopped_cong) simp

lemma newlyFallen_pre [simp]:
  "newlyFallen (g\<lparr>directionArrow := a\<rparr>) = newlyFallen g"
  by (rule newlyFallen_cong) simp_all

lemma resetForNextThrow_fields [simp]:
  "bowlingBall (resetForNextThrow g) = map_option resetBall (bowlingBall g)"
  "pins (resetForNextThrow g) = pins g"
  "directionArrow (resetForNextThrow g) = map_option resetArrow (directionArrow g)"
  "score (resetForNextThrow g) = score g"
  "scoreText (resetForNextThrow g) = scoreText g"
  "fallenPinIndicesThisThrow (resetForNextThrow g) = {}"
  "currentGameState (resetForNextThrow g) = RESETTING"
  "currentAimAngle (resetForNextThrow g) = 0"
  "chargeStartTime (resetForNextThrow g) = chargeStartTime g"
  "launchPower (resetForNextThrow g) = MIN_LAUNCH_FORCE"
  "resetTimer (resetForNextThrow g) = resetTimer g"
  "timers (resetForNextThrow g) = timers g @ [(nextTimerId g, 100, ToAiming)]"
  "nextTimerId (resetForNextThrow g) = nextTimerId g + 1"
  "clock (resetForNextThrow g) = clock g"
  by (simp_all add: resetForNextThrow_def setTimeout_def Let_def)

lemma resetGame_fields [simp]:
  "bowlingBall (resetGame merged g) = Some (resetBall newBall)"
  "pins (resetGame merged g) = map (\<lambda>pos. Some (newPin pos)) pinPositions"
  "directionArrow (resetGame merged g) = map_option resetArrow (createDirectionArrow merged)"
  "score (resetGame merged g) = 0"
  "fallenPinIndicesThisThrow (resetGame merged g) = {}"
  "currentGameState (resetGame merged g) = RESETTING"
  "currentAimAngle (resetGame merged g) = 0"
  "chargeStartTime (resetGame merged g) = chargeStartTime g"
  "launchPower (resetGame merged g) = MIN_LAUNCH_FORCE"
  "resetTimer (resetGame merged g) = resetTimer g"
  "timers (resetGame merged g) = timers g @ [(nextTimerId g, 100, ToAiming)]"
  "nextTimerId (resetGame merged g) = nextTimerId g + 1"
  "clock (resetGame merged g) = clock g"
  by (simp_all add: resetGame_def Let_def)

lemma clearTimeout_fields [simp]:
  "bowlingBall (clearTimeout h g) = bowlingBall g"
  "pins (clearTimeout h g) = pins g"
  "directionArrow (clearTimeout h g) = directionArrow g"
  "score (clearTimeout h g) = score g"
  "scoreText (clearTimeout h g) = scoreText g"
  "fallenPinIndicesThisThrow (clearTimeout h g) = fallenPinIndicesThisThrow g"
  "currentGameState (clearTimeout h g) = currentGameState g"
  "currentAimAngle (clearTimeout h g) = currentAimAngle g"
  "chargeStartTime (clearTimeout h g) = chargeStartTime g"
  "launchPower (clearTimeout h g) = launchPower g"
  "resetTimer (clearTimeout h g) = resetTimer g"
  "timers (clearTimeout h g) = filter (\<lambda>t. fst t \<noteq> h) (timers g)"
  "nextTimerId (clearTimeout h g) = nextTimerId g"
  "clock (clearTimeout h g) = clock g"
  by (simp_all add: clearTimeout_def)

subsection \<open>Invariants of the reachable states\<close>

lemma rollingTick_fields [simp]:
  "bowlingBall (rollingTick g) = bowlingBall g"
  "pins (rollingTick g) = pins g"
  "score (rollingTick g) = score g + int (card (newlyFallen g))"
  "fallenPinIndicesThisThrow (rollingTick g) = fallenPinIndicesThisThrow g \<union> newlyFallen g"
  "currentGameState (rollingTick g) = currentGameState g"
  "currentAimAngle (rollingTick g) = currentAimAngle g"
  "chargeStartTime (rollingTick g) = chargeStartTime g"
  "launchPower (rollingTick g) = launchPower g"
  "clock (rollingTick g) = clock g"
  by (simp_all add: rollingTick_def Let_def setTimeout_def split: prod.splits)

lemma rollingTick_timers:
  "timers (rollingTick g) =
     (if truthy (isBallStopped g) then
        (if timerSet (resetTimer g) then timers g
         else timers g @ [(nextTimerId g, 500, StoppedReset)])
      else
        (if timerSet (resetTimer g) then filter (\<lambda>t. fst t \<noteq> the (resetTimer g)) (timers g)
         else timers g))"
  "resetTimer (rollingTick g) =
     (if truthy (isBallStopped g) then
        (if timerSet (resetTimer g) then resetTimer g else Some (nextTimerId g))
      else
        (if timerSet (resetTimer g) then None else resetTimer g))"
  "nextTimerId (rollingTick g) =
     (if truthy (isBallStopped g) \<and> \<not> timerSet (resetTimer g) then nextTimerId g + 1
      else nextTimerId g)"
  by (simp_all add: rollingTick_def Let_def setTimeout_def split: prod.splits)

lemma detected_bound: "detected 0 ps F \<subseteq> {..<length ps}"
  by (auto simp: detected_set)

lemma newlyFallen_bound: "newlyFallen g \<subseteq> {..<length (pins g)}"
  by (simp add: newlyFallen_def detected_bound)

lemma length_movePins [simp]: "length (movePins ms ps) = length ps"
  by (simp add: movePins_def)

lemma movePin_body:
  "\<exists>pin. p = Some pin \<and> pin_physicsImpostor pin \<Longrightarrow>
   \<exists>pin. movePin (p, m) = Some pin \<and> pin_physicsImpostor pin"
  by (cases m) auto

lemma movePins_body:
  assumes "\<forall>p \<in> set ps. \<exists>pin. p = Some pin \<and> pin_physicsImpostor pin"
  shows "\<forall>p \<in> set (movePins ms ps). \<exists>pin. p = Some pin \<and> pin_physicsImpostor pin"
proof
  fix p assume "p \<in> set (movePins ms ps)"
  then consider (moved) "p \<in> set (map movePin (zip ps ms))" | (kept) "p \<in> set (drop (length ms) ps)"
    by (auto simp: movePins_def)
  then show "\<exists>pin. p = Some pin \<and> pin_physicsImpostor pin"
  proof cases
    case moved
    then obtain q m where qm: "(q, m) \<in> set (zip ps ms)" "p = movePin (q, m)" by auto
    from qm(1) have "q \<in> set ps" by (rule set_zip_leftD)
    with assms have "\<exists>pin. q = Some pin \<and> pin_physicsImpostor pin" by blast
    then show ?thesis unfolding qm(2) by (rule movePin_body)
  next
    case kept
    then have "p \<in> set ps" by (rule in_set_dropD)
    with assms show ?thesis by blast
  qed
qed

lemma moveBall_body:
  "physicsImpostor ball = Some body \<Longrightarrow> \<exists>body'. physicsImpostor (moveBall m ball) = Some body'"
  by (simp add: moveBall_def)

lemma resetBall_body:
  "physicsImpostor ball = Some body \<Longrightarrow> physicsImpostor (resetBall ball) = Some (stopBody body)"
  by (simp add: resetBall_def)

lemma tick_static [simp]:
  "bowlingBall (tick now g) = bowlingBall g"
  "pins (tick now g) = pins g"
  "clock (tick now g) = now"
  "chargeStartTime (tick now g) = chargeStartTime g"
  "currentGameState (tick now g) = currentGameState g"
  by (simp_all add: tick_def Let_def updateArrowAiming_def updateArrowCharging_def
      split: GameState.splits option.splits)

lemma newlyFallen_clock [simp]: "newlyFallen (g\<lparr>clock := c\<rparr>) = newlyFallen g"
  by (rule newlyFallen_cong) simp_all

lemma isBallStopped_clock [simp]: "isBallStopped (g\<lparr>clock := c\<rparr>) = isBallStopped g"
  by (rule isBallStopped_cong) simp

lemma tick_score:
  "score (tick now g) =
     (if currentGameState g = BALL_ROLLING then score g + int (card (newlyFallen g)) else score g)"
  "fallenPinIndicesThisThrow (tick now g) =
     (if currentGameState g = BALL_ROLLING then fallenPinIndicesThisThrow g \<union> newlyFallen g
      else fallenPinIndicesThisThrow g)"
  by (simp_all add: tick_def Let_def updateArrowAiming_def updateArrowCharging_def
      split: GameState.splits option.splits)

lemma tick_timers:
  "currentGameState g \<noteq> BALL_ROLLING \<Longrightarrow> timers (tick now g) = timers g"
  "currentGameState g \<noteq> BALL_ROLLING \<Longrightarrow> resetTimer (tick now g) = resetTimer g"
  "currentGameState g \<noteq> BALL_ROLLING \<Longrightarrow> nextTimerId (tick now g) = nextTimerId g"
  "currentGameState g = BALL_ROLLING \<Longrightarrow> timers (tick now g) = timers (rollingTick g)"
  "currentGameState g = BALL_ROLLING \<Longrightarrow> resetTimer (tick now g) = resetTimer (rollingTick g)"
  "currentGameState g = BALL_ROLLING \<Longrightarrow> nextTimerId (tick now g) = nextTimerId (rollingTick g)"
  by (simp_all add: tick_def Let_def updateArrowAiming_def updateArrowCharging_def rollingTick_timers
      split: GameState.splits option.splits)

lemma launch_fields [simp]:
  "pins (launch g) = pins g"
  "score (launch g) = score g"
  "fallenPinIndicesThisThrow (launch g) = fallenPinIndicesThisThrow g"
  "currentGameState (launch g) = BALL_ROLLING"
  "currentAimAngle (launch g) = currentAimAngle g"
  "chargeStartTime (launch g) = chargeStartTime g"
  "launchPower (launch g) = launchPower g"
  "resetTimer (launch g) = resetTimer g"
  "timers (launch g) = timers g"
  "nextTimerId (launch g) = nextTimerId g"
  "clock (launch g) = clock g"
  by (simp_all add: launch_def Let_def split: option.splits)

lemma launch_ball:
  "bowlingBall g = Some ball \<Longrightarrow> physicsImpostor ball = Some body \<Longrightarrow>
   bowlingBall (launch g) =
     Some (ball\<lparr>physicsImpostor :=
       Some (applyImpulse (scale (launchDirection (currentAimAngle g)) (launchPower g))
               (position ball) body)\<rparr>)"
  by (simp add: launch_def Let_def)

lemma keydown_fields [simp]:
  "bowlingBall (keydown key code now g) = bowlingBall g"
  "pins (keydown key code now g) = pins g"
  "score (keydown key code now g) = score g"
  "fallenPinIndicesThisThrow (keydown key code now g) = fallenPinIndicesThisThrow g"
  "currentAimAngle (keydown key code now g) = currentAimAngle g"
  "resetTimer (keydown key code now g) = resetTimer g"
  "timers (keydown key code now g) = timers g"
  "nextTimerId (keydown key code now g) = nextTimerId g"
  by (simp_all add: keydown_def Let_def updateArrowCharging_def split: option.splits)

lemma physicsStep_fields [simp]:
  "pins (physicsStep m ms g) = movePins ms (pins g)"
  "bowlingBall (physicsStep m ms g) = map_option (moveBall m) (bowlingBall g)"
  "directionArrow (physicsStep m ms g) = directionArrow g"
  "score (physicsStep m ms g) = score g"
  "fallenPinIndicesThisThrow (physicsStep m ms g) = fallenPinIndicesThisThrow g"
  "currentGameState (physicsStep m ms g) = currentGameState g"
  "currentAimAngle (physicsStep m ms g) = currentAimAngle g"
  "chargeStartTime (physicsStep m ms g) = chargeStartTime g"
  "launchPower (physicsStep m ms g) = launchPower g"
  "resetTimer (physicsStep m ms g) = resetTimer g"
  "timers (physicsStep m ms g) = timers g"
  "nextTimerId (physicsStep m ms g) = nextTimerId g"
  "clock (physicsStep m ms g) = clock g"
  by (simp_all add: physicsStep_def)

lemma timeout_cases:
  obtains (none) "timeout h g = g" "\<forall>t \<in> set (timers g). fst t \<noteq> h"
  | (stopped) d where "(h, d, StoppedReset) \<in> set (timers g)"
      "timeout h g = stoppedResetCallback (clearTimeout h g)"
  | (aim) d where "(h, d, ToAiming) \<in> set (timers g)"
      "timeout h g = toAimingCallback (clearTimeout h g)"
proof (cases "find (\<lambda>t. fst t = h) (timers g)")
  case None
  then have "timeout h g = g" by (simp add: timeout_def)
  moreover from None have "\<forall>t \<in> set (timers g). fst t \<noteq> h" by (auto simp: find_None_iff)
  ultimately show ?thesis by (rule none)
next
  case (Some t)
  then have mem: "t \<in> set (timers g)" and h: "fst t = h"
    by (auto simp: find_Some_iff)
  obtain h' d cb where t: "t = (h', d, cb)" by (cases t) 
  with h have [simp]: "h' = h" by simp
  show ?thesis
  proof (cases cb)
    case StoppedReset
    with Some t mem show ?thesis by (intro stopped [of d]) (simp_all add: timeout_def)
  next
    case ToAiming
    with Some t mem show ?thesis by (intro aim [of d]) (simp_all add: timeout_def)
  qed
qed

lemma sceneBuilt_resetForNextThrow: "sceneBuilt g \<Longrightarrow> sceneBuilt (resetForNextThrow g)"
  by (auto simp: sceneBuilt_def resetBall_def)

lemma sceneBuilt_resetGame: "sceneBuilt (resetGame merged g)"
  by (simp add: sceneBuilt_def pinPositions_def newPin_def resetBall_def newBall_def)

lemma sceneBuilt_step: "sceneBuilt g \<Longrightarrow> sceneBuilt (step e g)"
proof (cases e)
  case (Tick now)
  assume "sceneBuilt g"
  then show ?thesis by (simp add: Tick sceneBuilt_def)
next
  case (KeyDown key code now)
  assume "sceneBuilt g"
  then show ?thesis by (simp add: KeyDown sceneBuilt_def)
next
  case (KeyUp key code merged)
  assume a: "sceneBuilt g"
  have l: "sceneBuilt (launch g)"
    using a by (auto simp: sceneBuilt_def launch_ball)
  show ?thesis
    using a l by (simp add: KeyUp keyup_def Let_def sceneBuilt_resetGame)
next
  case (Timeout h)
  assume a: "sceneBuilt g"
  have c: "sceneBuilt (clearTimeout h g)" using a by (simp add: sceneBuilt_def)
  show ?thesis
  proof (rule timeout_cases [of h g])
    assume "timeout h g = g"
    with a show ?thesis by (simp add: Timeout)
  next
    fix d assume t: "timeout h g = stoppedResetCallback (clearTimeout h g)"
    have "sceneBuilt (resetForNextThrow (clearTimeout h g))"
      using c by (rule sceneBuilt_resetForNextThrow)
    then show ?thesis by (simp add: Timeout t stoppedResetCallback_def sceneBuilt_def)
  next
    fix d assume t: "timeout h g = toAimingCallback (clearTimeout h g)"
    with c show ?thesis by (simp add: Timeout toAimingCallback_def sceneBuilt_def)
  qed
next
  case (Physics m ms)
  assume a: "sceneBuilt g"
  then show ?thesis
    by (auto simp: Physics sceneBuilt_def movePins_body moveBall_def)
qed

lemma scoreOk_step: "scoreOk g \<Longrightarrow> scoreOk (step e g)"
proof (cases e)
  case (Tick now)
  assume "scoreOk g"
  then show ?thesis
    using newlyFallen_bound [of g] by (auto simp: Tick scoreOk_def tick_score)
next
  case (KeyDown key code now)
  assume "scoreOk g"
  then show ?thesis by (simp add: KeyDown scoreOk_def)
next
  case (KeyUp key code merged)
  assume "scoreOk g"
  then show ?thesis by (simp add: KeyUp keyup_def Let_def scoreOk_def)
next
  case (Timeout h)
  assume a: "scoreOk g"
  show ?thesis
  proof (rule timeout_cases [of h g])
    assume "timeout h g = g"
    with a show ?thesis by (simp add: Timeout)
  next
    fix d assume t: "timeout h g = stoppedResetCallback (clearTimeout h g)"
    show ?thesis using a by (simp add: Timeout t stoppedResetCallback_def scoreOk_def)
  next
    fix d assume t: "timeout h g = toAimingCallback (clearTimeout h g)"
    show ?thesis using a by (simp add: Timeout t toAimingCallback_def scoreOk_def)
  qed
next
  case (Physics m ms)
  assume "scoreOk g"
  then show ?thesis by (simp add: Physics scoreOk_def)
qed

lemma chargeRatio_bounds: "0 \<le> d \<Longrightarrow> 0 \<le> chargeRatio d \<and> chargeRatio d \<le> 1"
  by (simp add: chargeRatio_def MAX_CHARGE_TIME_def)

lemma chargeRatio_mono: "d \<le> d' \<Longrightarrow> chargeRatio d \<le> chargeRatio d'"
  by (simp add: chargeRatio_def MAX_CHARGE_TIME_def min_def divide_right_mono)

lemma chargeRatio_full: "1500 \<le> d \<Longrightarrow> chargeRatio d = 1"
  by (simp add: chargeRatio_def MAX_CHARGE_TIME_def min_def)

lemma launchPower_updateArrowCharging:
  "launchPower (updateArrowCharging a d g) = 20 + 130 * chargeRatio d"
  by (simp add: updateArrowCharging_def MIN_LAUNCH_FORCE_def MAX_LAUNCH_FORCE_def)

lemma updateArrowCharging_range:
  assumes "0 \<le> d"
  shows "MIN_LAUNCH_FORCE \<le> launchPower (updateArrowCharging a d g)"
    and "launchPower (updateArrowCharging a d g) \<le> MAX_LAUNCH_FORCE"
  using chargeRatio_bounds [OF assms]
  by (simp_all add: launchPower_updateArrowCharging MIN_LAUNCH_FORCE_def MAX_LAUNCH_FORCE_def)

lemma aim_range:
  "- ARROW_MAX_ANGLE \<le> sin t * ARROW_MAX_ANGLE" "sin t * ARROW_MAX_ANGLE \<le> ARROW_MAX_ANGLE"
proof -
  have p: "0 \<le> ARROW_MAX_ANGLE" by (simp add: ARROW_MAX_ANGLE_def)
  have "- 1 * ARROW_MAX_ANGLE \<le> sin t * ARROW_MAX_ANGLE"
    using p by (intro mult_right_mono) simp_all
  then show "- ARROW_MAX_ANGLE \<le> sin t * ARROW_MAX_ANGLE" by simp
  have "sin t * ARROW_MAX_ANGLE \<le> 1 * ARROW_MAX_ANGLE"
    using p by (intro mult_right_mono) simp_all
  then show "sin t * ARROW_MAX_ANGLE \<le> ARROW_MAX_ANGLE" by simp
qed

lemma tick_aiming:
  "currentGameState g = AIMING \<Longrightarrow> directionArrow g = Some a \<Longrightarrow>
   tick now g = updateArrowAiming (a\<lparr>isVisible := True\<rparr>) (now / 1000) (g\<lparr>clock := now\<rparr>)"
  by (simp add: tick_def Let_def)

lemma tick_charging:
  "currentGameState g = CHARGING \<Longrightarrow> directionArrow g = Some a \<Longrightarrow>
   tick now g = updateArrowCharging a (now - chargeStartTime g) (g\<lparr>clock := now\<rparr>)"
  by (simp add: tick_def Let_def)

lemma tick_no_arrow:
  "directionArrow g = None \<Longrightarrow> currentGameState g \<noteq> BALL_ROLLING \<Longrightarrow>
   tick now g = g\<lparr>clock := now\<rparr>"
  by (simp add: tick_def Let_def split: GameState.splits)

lemma tick_idle:
  "currentGameState g = RESETTING \<or> currentGameState g = ENDED \<Longrightarrow>
   tick now g = g\<lparr>clock := now\<rparr>"
  by (auto simp: tick_def Let_def)

lemma tick_rolling:
  "currentGameState g = BALL_ROLLING \<Longrightarrow> tick now g = rollingTick (g\<lparr>clock := now\<rparr>)"
  by (simp add: tick_def Let_def)

lemma powerOk_zero: "- ARROW_MAX_ANGLE \<le> 0 \<and> 0 \<le> ARROW_MAX_ANGLE \<and> MIN_LAUNCH_FORCE \<le> MAX_LAUNCH_FORCE"
  by (simp add: ARROW_MAX_ANGLE_def MIN_LAUNCH_FORCE_def MAX_LAUNCH_FORCE_def)

lemma powerOk_tick:
  assumes "powerOk g" "clock g \<le> now"
  shows "powerOk (tick now g)"
proof (cases "directionArrow g")
  case None
  show ?thesis
  proof (cases "currentGameState g = BALL_ROLLING")
    case True
    with assms show ?thesis by (simp add: tick_rolling powerOk_def)
  next
    case False
    with None assms show ?thesis by (simp add: tick_no_arrow powerOk_def)
  qed
next
  case (Some a)
  show ?thesis
  proof (cases "currentGameState g")
    case AIMING
    with Some assms show ?thesis
      by (simp add: tick_aiming powerOk_def updateArrowAiming_def Let_def aim_range)
  next
    case CHARGING
    from assms have d: "0 \<le> now - chargeStartTime g" by (simp add: powerOk_def)
    from CHARGING Some assms updateArrowCharging_range [OF d] show ?thesis
      by (simp add: tick_charging powerOk_def) (simp add: updateArrowCharging_def)
  next
    case BALL_ROLLING
    with assms show ?thesis by (simp add: tick_rolling powerOk_def)
  next
    case RESETTING
    with assms show ?thesis by (simp add: tick_idle powerOk_def)
  next
    case ENDED
    with assms show ?thesis by (simp add: tick_idle powerOk_def)
  qed
qed

lemma powerOk_keydown:
  assumes "powerOk g" "clock g \<le> now"
  shows "powerOk (keydown key code now g)"
proof (cases "isSpace key code \<and> currentGameState g = AIMING")
  case False
  with assms show ?thesis by (auto simp: keydown_def)
next
  case True
  show ?thesis
  proof (cases "directionArrow g")
    case None
    with True assms show ?thesis by (simp add: keydown_def Let_def powerOk_def)
  next
    case (Some a)
    have "0 \<le> (0::real)" by simp
    note r = updateArrowCharging_range [OF this]
    from Some True assms show ?thesis
      by (simp add: keydown_def Let_def powerOk_def r) (simp add: updateArrowCharging_def)
  qed
qed

lemma powerOk_step: "powerOk g \<Longrightarrow> admissible e g \<Longrightarrow> powerOk (step e g)"
proof (cases e)
  case (Tick now)
  assume "powerOk g" "admissible e g"
  then show ?thesis by (simp add: Tick powerOk_tick)
next
  case (KeyDown key code now)
  assume "powerOk g" "admissible e g"
  then show ?thesis by (simp add: KeyDown powerOk_keydown)
next
  case (KeyUp key code merged)
  assume "powerOk g"
  then show ?thesis
    using powerOk_zero by (simp add: KeyUp keyup_def Let_def powerOk_def)
next
  case (Timeout h)
  assume a: "powerOk g"
  show ?thesis
  proof (rule timeout_cases [of h g])
    assume "timeout h g = g"
    with a show ?thesis by (simp add: Timeout)
  next
    fix d assume t: "timeout h g = stoppedResetCallback (clearTimeout h g)"
    show ?thesis
      using a powerOk_zero by (simp add: Timeout t stoppedResetCallback_def powerOk_def)
  next
    fix d assume t: "timeout h g = toAimingCallback (clearTimeout h g)"
    show ?thesis using a by (simp add: Timeout t toAimingCallback_def powerOk_def)
  qed
next
  case (Physics m ms)
  assume "powerOk g"
  then show ?thesis by (simp add: Physics powerOk_def)
qed

subsection \<open>Pending timers\<close>

lemma idsOk_append:
  assumes "idsOk ts n"
  shows "idsOk (ts @ [(n, d, cb)]) (Suc n)"
proof -
  from assms have lt: "\<forall>t \<in> set ts. fst t \<noteq> 0 \<and> fst t < n"
    and d: "distinct (map fst ts)" and p: "0 < n"
    by (simp_all add: idsOk_def)
  from lt have "n \<notin> fst ` set ts" by auto
  moreover from lt have "\<forall>t \<in> set ts. fst t < Suc n" by auto
  ultimately show ?thesis using lt d p by (simp add: idsOk_def)
qed

lemma idsOk_filter: "idsOk ts n \<Longrightarrow> idsOk (filter P ts) n"
  by (simp add: idsOk_def distinct_map_filter)

lemma settleOk_None: "settleOk ts None st \<longleftrightarrow> (\<forall>t \<in> set ts. snd (snd t) \<noteq> StoppedReset)"
  by (simp add: settleOk_def)

lemma settleOk_append_settle:
  "settleOk ts None st \<Longrightarrow> settleOk (ts @ [(n, 500, StoppedReset)]) (Some n) BALL_ROLLING"
  by (simp add: settleOk_def)

lemma settleOk_append_aim:
  "settleOk ts None st \<Longrightarrow> settleOk (ts @ [(n, 100, ToAiming)]) None st'"
  by (simp add: settleOk_def)

lemma settleOk_cancel:
  "settleOk ts (Some h) st \<Longrightarrow> settleOk (filter (\<lambda>t. fst t \<noteq> h) ts) None st'"
  by (auto simp: settleOk_def)

lemma settleOk_filter: "settleOk ts None st \<Longrightarrow> settleOk (filter P ts) None st'"
  by (simp add: settleOk_def)


lemma settleOk_not_rolling: "settleOk ts r st \<Longrightarrow> st \<noteq> BALL_ROLLING \<Longrightarrow> r = None"
  by (cases r) (simp_all add: settleOk_def)

lemma settleOk_unset:
  assumes "idsOk ts n" "settleOk ts r st" "\<not> timerSet r"
  shows "r = None"
proof (cases r)
  case (Some h)
  with assms(2) have "(h, 500, StoppedReset) \<in> set ts" by (simp add: settleOk_def)
  with assms(1) have "h \<noteq> 0" by (fastforce simp: idsOk_def)
  with Some assms(3) show ?thesis by (simp add: timerSet_def)
qed simp

lemma timerSet_Some: "timerSet r \<Longrightarrow> \<exists>h. r = Some h"
  by (cases r) (simp_all add: timerSet_def)

lemma aimOk_noAim: "aimOk ts st \<Longrightarrow> st \<noteq> RESETTING \<Longrightarrow> noAim ts"
  by (auto simp: aimOk_def noAim_def)

lemma noAim_aimOk: "noAim ts \<Longrightarrow> aimOk ts st"
  by (simp add: aimOk_def noAim_def)

lemma noAim_append_settle: "noAim ts \<Longrightarrow> noAim (ts @ [(n, d, StoppedReset)])"
  by (simp add: noAim_def)

lemma noAim_filter: "noAim ts \<Longrightarrow> noAim (filter P ts)"
  by (simp add: noAim_def)

lemma aimOk_append_aim: "noAim ts \<Longrightarrow> aimOk (ts @ [(n, 100, ToAiming)]) RESETTING"
  by (simp add: aimOk_def noAim_def)

lemma aimOk_same:
  "aimOk ts st \<Longrightarrow> t \<in> set ts \<Longrightarrow> t' \<in> set ts \<Longrightarrow>
   snd (snd t) = ToAiming \<Longrightarrow> snd (snd t') = ToAiming \<Longrightarrow> fst t = fst t'"
  unfolding aimOk_def by blast

lemma aimOk_resetting:
  "aimOk ts st \<Longrightarrow> t \<in> set ts \<Longrightarrow> snd (snd t) = ToAiming \<Longrightarrow> st = RESETTING"
  unfolding aimOk_def by blast

lemma aimOk_fire:
  assumes "aimOk ts st" "(h, d, ToAiming) \<in> set ts"
  shows "noAim (filter (\<lambda>t. fst t \<noteq> h) ts)" and "st = RESETTING"
proof -
  from assms show "st = RESETTING" by (rule aimOk_resetting) simp
  have "fst t = h" if "t \<in> set ts" "snd (snd t) = ToAiming" for t
    using aimOk_same [OF assms(1) that(1) assms(2) that(2)] by simp
  then show "noAim (filter (\<lambda>t. fst t \<noteq> h) ts)"
    unfolding noAim_def by auto
qed

lemma timersOk_cong:
  "timers g' = timers g \<Longrightarrow> nextTimerId g' = nextTimerId g \<Longrightarrow>
   resetTimer g' = resetTimer g \<Longrightarrow> currentGameState g' = currentGameState g \<Longrightarrow>
   timersOk g' = timersOk g"
  by (simp add: timersOk_def)

lemma timersOk_rollingTick:
  assumes ok: "timersOk g" and r: "currentGameState g = BALL_ROLLING"
  shows "timersOk (rollingTick g)"
proof -
  from ok have ids: "idsOk (timers g) (nextTimerId g)"
    and st: "settleOk (timers g) (resetTimer g) (currentGameState g)"
    and am: "aimOk (timers g) (currentGameState g)"
    by (simp_all add: timersOk_def)
  from am r have na: "noAim (timers g)" by (intro aimOk_noAim [OF am]) simp
  show ?thesis
  proof (cases "timerSet (resetTimer g)")
    case False
    from ids st False have n: "resetTimer g = None" by (rule settleOk_unset)
    show ?thesis
    proof (cases "truthy (isBallStopped g)")
      case True
      from st n have "settleOk (timers g @ [(nextTimerId g, 500, StoppedReset)])
          (Some (nextTimerId g)) BALL_ROLLING"
        by (intro settleOk_append_settle) simp
      moreover have "aimOk (timers g @ [(nextTimerId g, 500, StoppedReset)]) BALL_ROLLING"
        using na by (intro noAim_aimOk noAim_append_settle)
      moreover have "idsOk (timers g @ [(nextTimerId g, 500, StoppedReset)]) (Suc (nextTimerId g))"
        using ids by (rule idsOk_append)
      ultimately show ?thesis
        using True False r by (simp add: timersOk_def rollingTick_timers)
    next
      case nt: False
      with False ok show ?thesis
        by (simp add: timersOk_def rollingTick_timers)
    qed
  next
    case True
    then obtain h where h: "resetTimer g = Some h" by (auto dest: timerSet_Some)
    show ?thesis
    proof (cases "truthy (isBallStopped g)")
      case st': True
      with True ok show ?thesis
        by (simp add: timersOk_def rollingTick_timers)
    next
      case False
      have "settleOk (filter (\<lambda>t. fst t \<noteq> h) (timers g)) None BALL_ROLLING"
        using st h by (intro settleOk_cancel [of _ _ "currentGameState g"]) simp
      moreover have "aimOk (filter (\<lambda>t. fst t \<noteq> h) (timers g)) BALL_ROLLING"
        using na by (intro noAim_aimOk noAim_filter)
      moreover have "idsOk (filter (\<lambda>t. fst t \<noteq> h) (timers g)) (nextTimerId g)"
        using ids by (rule idsOk_filter)
      ultimately show ?thesis
        using True False r h by (simp add: timersOk_def rollingTick_timers)
    qed
  qed
qed

lemma timersOk_tick:
  assumes "timersOk g"
  shows "timersOk (tick now g)"
proof (cases "currentGameState g = BALL_ROLLING")
  case True
  have "timersOk (tick now g) = timersOk (rollingTick g)"
    using True by (intro timersOk_cong) (simp_all add: tick_timers)
  with assms True show ?thesis by (simp add: timersOk_rollingTick)
next
  case False
  have "timersOk (tick now g) = timersOk g"
    using False by (intro timersOk_cong) (simp_all add: tick_timers)
  with assms show ?thesis by simp
qed

lemma timersOk_leave:
  assumes ok: "timersOk g"
    and s: "currentGameState g \<noteq> RESETTING" "currentGameState g \<noteq> BALL_ROLLING"
    and e: "timers g' = timers g" "nextTimerId g' = nextTimerId g" "resetTimer g' = resetTimer g"
  shows "timersOk g'"
proof -
  from ok have ids: "idsOk (timers g) (nextTimerId g)"
    and st: "settleOk (timers g) (resetTimer g) (currentGameState g)"
    and am: "aimOk (timers g) (currentGameState g)"
    by (simp_all add: timersOk_def)
  from st s(2) have n: "resetTimer g = None" by (rule settleOk_not_rolling)
  from am s(1) have "noAim (timers g)" by (rule aimOk_noAim)
  then have "aimOk (timers g) (currentGameState g')" by (rule noAim_aimOk)
  moreover from st n have "settleOk (timers g) None (currentGameState g')"
    by (simp add: settleOk_None)
  ultimately show ?thesis using ids e n by (simp add: timersOk_def)
qed

lemma timersOk_keydown: "timersOk g \<Longrightarrow> timersOk (keydown key code now g)"
proof (cases "isSpace key code \<and> currentGameState g = AIMING")
  case False
  assume "timersOk g"
  with False show ?thesis by (auto simp: keydown_def)
next
  case True
  assume ok: "timersOk g"
  from True have s: "currentGameState g \<noteq> RESETTING" "currentGameState g \<noteq> BALL_ROLLING"
    by simp_all
  show ?thesis by (rule timersOk_leave [OF ok s]) simp_all
qed

lemma timersOk_launch:
  assumes "timersOk g" "currentGameState g = CHARGING"
  shows "timersOk (launch g)"
proof -
  from assms(2) have s: "currentGameState g \<noteq> RESETTING" "currentGameState g \<noteq> BALL_ROLLING"
    by simp_all
  show ?thesis by (rule timersOk_leave [OF assms(1) s]) simp_all
qed

text \<open>A reset routine entered from a phase other than \<^verbatim>\<open>RESETTING\<close>.\<close>

lemma timersOk_enter_reset:
  assumes ids: "idsOk ts n" and st: "settleOk ts None s" and na: "noAim ts"
    and e: "timers g' = ts @ [(n, 100, ToAiming)]" "nextTimerId g' = n + 1"
      "resetTimer g' = None" "currentGameState g' = RESETTING"
  shows "timersOk g'"
proof -
  from ids have "idsOk (ts @ [(n, 100, ToAiming)]) (Suc n)" by (rule idsOk_append)
  moreover from st have "settleOk (ts @ [(n, 100, ToAiming)]) None RESETTING"
    by (rule settleOk_append_aim)
  moreover from na have "aimOk (ts @ [(n, 100, ToAiming)]) RESETTING" by (rule aimOk_append_aim)
  ultimately show ?thesis using e by (simp add: timersOk_def)
qed

lemma timersOk_keyup:
  assumes ok: "timersOk g"
  shows "timersOk (keyup key code merged g)"
proof -
  define g1 where "g1 = (if isSpace key code \<and> currentGameState g = CHARGING then launch g else g)"
  have ok1: "timersOk g1"
    using ok by (simp add: g1_def timersOk_launch)
  show ?thesis
  proof (cases "isR key \<and> currentGameState g1 \<noteq> RESETTING")
    case False
    with ok1 show ?thesis by (auto simp: keyup_def Let_def g1_def)
  next
    case True
    from ok1 have ids: "idsOk (timers g1) (nextTimerId g1)"
      and st: "settleOk (timers g1) (resetTimer g1) (currentGameState g1)"
      and am: "aimOk (timers g1) (currentGameState g1)"
      by (simp_all add: timersOk_def)
    from am True have na: "noAim (timers g1)" by (intro aimOk_noAim [OF am]) simp
    define g2 where "g2 = (if timerSet (resetTimer g1) then
        (clearTimeout (the (resetTimer g1)) g1)\<lparr>resetTimer := None\<rparr> else g1)"
    have k: "keyup key code merged g = resetGame merged g2"
      using True by (simp add: keyup_def Let_def g1_def g2_def)
    have "idsOk (timers g2) (nextTimerId g2) \<and> settleOk (timers g2) None (currentGameState g1)
        \<and> noAim (timers g2) \<and> resetTimer g2 = None"
    proof (cases "timerSet (resetTimer g1)")
      case False
      from ids st False have "resetTimer g1 = None" by (rule settleOk_unset)
      with False ids st na show ?thesis by (simp add: g2_def)
    next
      case ts: True
      then obtain h where h: "resetTimer g1 = Some h" by (auto dest: timerSet_Some)
      from st h have "settleOk (filter (\<lambda>t. fst t \<noteq> h) (timers g1)) None (currentGameState g1)"
        by (intro settleOk_cancel [of _ _ "currentGameState g1"]) simp
      with ts h ids na show ?thesis
        by (simp add: g2_def idsOk_filter noAim_filter)
    qed
    then have "timersOk (resetGame merged g2)"
      by (intro timersOk_enter_reset [of "timers g2" "nextTimerId g2" "currentGameState g1"])
        simp_all
    with k show ?thesis by simp
  qed
qed

lemma timersOk_timeout:
  assumes ok: "timersOk g"
  shows "timersOk (timeout h g)"
proof -
  from ok have ids: "idsOk (timers g) (nextTimerId g)"
    and st: "settleOk (timers g) (resetTimer g) (currentGameState g)"
    and am: "aimOk (timers g) (currentGameState g)"
    by (simp_all add: timersOk_def)
  show ?thesis
  proof (rule timeout_cases [of h g])
    assume "timeout h g = g"
    with ok show ?thesis by simp
  next
    fix d assume m: "(h, d, StoppedReset) \<in> set (timers g)"
      and t: "timeout h g = stoppedResetCallback (clearTimeout h g)"
    from st m have r: "resetTimer g = Some h" by (fastforce simp: settleOk_def)
    with st have roll: "currentGameState g = BALL_ROLLING" by (simp add: settleOk_def)
    from am roll have na: "noAim (timers g)" by (intro aimOk_noAim [OF am]) simp
    from st r have st': "settleOk (filter (\<lambda>t. fst t \<noteq> h) (timers g)) None (currentGameState g)"
      by (intro settleOk_cancel [of _ _ "currentGameState g"]) simp
    from ids have ids': "idsOk (filter (\<lambda>t. fst t \<noteq> h) (timers g)) (nextTimerId g)"
      by (rule idsOk_filter)
    from na have na': "noAim (filter (\<lambda>t. fst t \<noteq> h) (timers g))" by (rule noAim_filter)
    have "timersOk (stoppedResetCallback (clearTimeout h g))"
      by (rule timersOk_enter_reset [OF ids' st' na']) (simp_all add: stoppedResetCallback_def)
    with t show ?thesis by simp
  next
    fix d assume m: "(h, d, ToAiming) \<in> set (timers g)"
      and t: "timeout h g = toAimingCallback (clearTimeout h g)"
    note f = aimOk_fire [OF am m]
    from st f(2) have r: "resetTimer g = None" by (intro settleOk_not_rolling [OF st]) simp
    from st r have "settleOk (filter (\<lambda>t. fst t \<noteq> h) (timers g)) None AIMING"
      by (intro settleOk_filter [of _ "currentGameState g"]) simp
    moreover from ids have "idsOk (filter (\<lambda>t. fst t \<noteq> h) (timers g)) (nextTimerId g)"
      by (rule idsOk_filter)
    moreover from f(1) have "aimOk (filter (\<lambda>t. fst t \<noteq> h) (timers g)) AIMING"
      by (rule noAim_aimOk)
    ultimately show ?thesis
      using f(2) r by (simp add: t toAimingCallback_def timersOk_def)
  qed
qed

lemma timersOk_step: "timersOk g \<Longrightarrow> timersOk (step e g)"
proof (cases e)
  case (Physics m ms)
  assume "timersOk g"
  then show ?thesis by (simp add: Physics timersOk_def)
qed (simp_all add: timersOk_tick timersOk_keydown timersOk_keyup timersOk_timeout)

lemma invariant_step: "invariant g \<Longrightarrow> admissible e g \<Longrightarrow> invariant (step e g)"
  by (simp add: invariant_def sceneBuilt_step scoreOk_step powerOk_step timersOk_step)

lemma createScene_fields [simp]:
  "currentGameState (createScene m) = RESETTING"
  "timers (createScene m) = [(1, 100, ToAiming)]"
  "directionArrow (createScene m) = map_option resetArrow (createDirectionArrow m)"
  "chargeStartTime (createScene m) = 0"
  "clock (createScene m) = 0"
  "resetTimer (createScene m) = None"
  "nextTimerId (createScene m) = 2"
  "score (createScene m) = 0"
  "fallenPinIndicesThisThrow (createScene m) = {}"
  "launchPower (createScene m) = MIN_LAUNCH_FORCE"
  "currentAimAngle (createScene m) = 0"
  "pins (createScene m) = map (\<lambda>pos. Some (newPin pos)) pinPositions"
  "bowlingBall (createScene m) = Some (resetBall newBall)"
  by (simp_all add: createScene_def moduleInit_def)

lemma invariant_createScene: "invariant (createScene m)"
proof -
  have "sceneBuilt (createScene m)" by (simp add: createScene_def sceneBuilt_resetGame)
  moreover have "scoreOk (createScene m)" by (simp add: scoreOk_def)
  moreover have "powerOk (createScene m)" using powerOk_zero by (simp add: powerOk_def)
  moreover have "timersOk (createScene m)"
    by (simp add: timersOk_def idsOk_def settleOk_def aimOk_def)
  ultimately show ?thesis by (simp add: invariant_def)
qed

lemma reachable_invariant: "reachable g \<Longrightarrow> invariant g"
  by (induction rule: reachable.induct) (simp_all add: invariant_createScene invariant_step)

subsection \<open>The straight throw, up to charging\<close>

lemma aimingGame_fields:
  "currentGameState aimingGame = AIMING"
  "directionArrow aimingGame = Some startArrow"
  "timers aimingGame = []"
  "clock aimingGame = 0"
  "launchPower aimingGame = 20"
  "currentAimAngle aimingGame = 0"
  "score aimingGame = 0"
  "fallenPinIndicesThisThrow aimingGame = {}"
  "resetTimer aimingGame = None"
  "nextTimerId aimingGame = 2"
  "bowlingBall aimingGame = Some (resetBall newBall)"
  "pins aimingGame = map (\<lambda>pos. Some (newPin pos)) pinPositions"
  by (simp_all add: aimingGame_def timeout_def toAimingCallback_def createDirectionArrow_def
      resetArrow_def startArrow_def MIN_LAUNCH_FORCE_def)

lemma chargingGame_fields:
  "currentGameState chargingGame = CHARGING"
  "chargeStartTime chargingGame = 1000"
  "directionArrow chargingGame = Some startArrow"
  "timers chargingGame = []"
  "clock chargingGame = 1000"
  "launchPower chargingGame = 20"
  "currentAimAngle chargingGame = 0"
  "score chargingGame = 0"
  "fallenPinIndicesThisThrow chargingGame = {}"
  "resetTimer chargingGame = None"
  "nextTimerId chargingGame = 2"
  "bowlingBall chargingGame = Some (resetBall newBall)"
  "pins chargingGame = map (\<lambda>pos. Some (newPin pos)) pinPositions"
  by (simp_all add: chargingGame_def keydown_def isSpace_def aimingGame_fields Let_def
      updateArrowCharging_def chargeRatio_def startArrow_def MIN_LAUNCH_FORCE_def
      MAX_LAUNCH_FORCE_def ARROW_LENGTH_MIN_def ARROW_LENGTH_MAX_def)

lemma reachable_aimingGame: "reachable aimingGame"
  unfolding aimingGame_def by (rule reach_step [OF reach_start]) simp

lemma reachable_chargingGame: "reachable chargingGame"
  unfolding chargingGame_def
  by (rule reach_step [OF reachable_aimingGame]) (simp add: aimingGame_fields)

subsection \<open>Charge ratio and launch power\<close>

text \<open>
  Claim C2.  For every elapsed charge duration \<open>d \<ge> 0\<close> handed to \<open>updateArrowCharging\<close>,
  as the render loop does while charging, the charge ratio is \<open>min (d / 1500) 1\<close> and
  lies in \<open>[0, 1]\<close>; the launch power is \<open>20 + (150 - 20) * chargeRatio\<close>, lies in
  \<open>[20, 150]\<close>, does not decrease when \<open>d\<close> grows, and is exactly \<open>150\<close> from
  \<open>d = 1500\<close> on.
\<close>

theorem C2_charge_power:
  assumes "0 \<le> d" and "d \<le> d'"
  shows "chargeRatio d = min (d / 1500) 1 \<and> 0 \<le> chargeRatio d \<and> chargeRatio d \<le> 1
    \<and> launchPower (updateArrowCharging a d g) = 20 + (150 - 20) * chargeRatio d
    \<and> 20 \<le> launchPower (updateArrowCharging a d g)
    \<and> launchPower (updateArrowCharging a d g) \<le> 150
    \<and> launchPower (updateArrowCharging a d g) \<le> launchPower (updateArrowCharging a d' g)
    \<and> (1500 \<le> d \<longrightarrow> launchPower (updateArrowCharging a d g) = 150)
    \<and> (currentGameState g = CHARGING \<and> directionArrow g = Some a
          \<and> now - chargeStartTime g = d
         \<longrightarrow> launchPower (tick now g) = 20 + (150 - 20) * min (d / 1500) 1)"
proof -
  have r: "chargeRatio d = min (d / 1500) 1"
    by (simp add: chargeRatio_def MAX_CHARGE_TIME_def)
  have b: "0 \<le> chargeRatio d" "chargeRatio d \<le> 1"
    using chargeRatio_bounds [OF assms(1)] by simp_all
  have m: "chargeRatio d \<le> chargeRatio d'"
    using assms(2) by (rule chargeRatio_mono)
  have t: "currentGameState g = CHARGING \<and> directionArrow g = Some a
          \<and> now - chargeStartTime g = d
         \<longrightarrow> launchPower (tick now g) = 20 + (150 - 20) * min (d / 1500) 1"
    using r by (auto simp: tick_charging launchPower_updateArrowCharging)
  show ?thesis
    using r b m t chargeRatio_full [of d]
    by (simp add: launchPower_updateArrowCharging)
qed

theorem C2_charge_power_witness:
  "(0::real) \<le> 750 \<and> (750::real) \<le> 1500 \<and> (1500::real) \<le> 1500
   \<and> currentGameState chargingGame = CHARGING \<and> directionArrow chargingGame = Some startArrow
   \<and> 1750 - chargeStartTime chargingGame = 750
   \<and> launchPower (updateArrowCharging startArrow 750 chargingGame) = 85
   \<and> launchPower (updateArrowCharging startArrow 1500 chargingGame) = 150
   \<and> launchPower (tick 1750 chargingGame) = 85"
  using C2_charge_power [of 750 1500 startArrow chargingGame 1750]
    C2_charge_power [of 1500 1500 startArrow chargingGame 2500]
  by (simp add: chargingGame_fields chargeRatio_def MAX_CHARGE_TIME_def)

subsection \<open>Scoring each pin once\<close>

lemma newlyFallen_disjoint: "newlyFallen g \<inter> fallenPinIndicesThisThrow g = {}"
  by (auto simp: newlyFallen_def detected_set)

lemma finite_newlyFallen: "finite (newlyFallen g)"
  by (simp add: newlyFallen_def finite_detected)

lemma rollEvent_step:
  assumes "rollEvent e"
  shows "\<exists>N. finite N \<and> N \<inter> fallenPinIndicesThisThrow g = {} \<and>
    fallenPinIndicesThisThrow (step e g) = fallenPinIndicesThisThrow g \<union> N \<and>
    score (step e g) = score g + int (card N)"
proof (cases e)
  case (Tick now)
  show ?thesis
  proof (cases "currentGameState g = BALL_ROLLING")
    case True
    then show ?thesis
      using finite_newlyFallen [of g] newlyFallen_disjoint [of g]
      by (intro exI [of _ "newlyFallen g"]) (simp add: Tick tick_score)
  next
    case False
    then show ?thesis by (intro exI [of _ "{}"]) (simp add: Tick tick_score)
  qed
next
  case (Physics m ms)
  then show ?thesis by (intro exI [of _ "{}"]) simp
qed (use assms in simp_all)

lemma roll_run:
  assumes "\<forall>e \<in> set es. rollEvent e"
  shows "\<exists>D. finite D \<and> D \<inter> fallenPinIndicesThisThrow g = {} \<and>
    fallenPinIndicesThisThrow (run es g) = fallenPinIndicesThisThrow g \<union> D \<and>
    score (run es g) = score g + int (card D)"
  using assms
proof (induction es arbitrary: g)
  case Nil
  show ?case by (intro exI [of _ "{}"]) (simp add: run_def)
next
  case (Cons e es)
  from Cons.prems have e: "rollEvent e" and es: "\<forall>e \<in> set es. rollEvent e" by simp_all
  from rollEvent_step [OF e, of g] obtain N where N: "finite N"
    "N \<inter> fallenPinIndicesThisThrow g = {}"
    "fallenPinIndicesThisThrow (step e g) = fallenPinIndicesThisThrow g \<union> N"
    "score (step e g) = score g + int (card N)" by blast
  from Cons.IH [OF es, of "step e g"] obtain D where D: "finite D"
    "D \<inter> fallenPinIndicesThisThrow (step e g) = {}"
    "fallenPinIndicesThisThrow (run es (step e g)) = fallenPinIndicesThisThrow (step e g) \<union> D"
    "score (run es (step e g)) = score (step e g) + int (card D)" by blast
  have r: "run (e # es) g = run es (step e g)" by (simp add: run_def)
  from D(2) N(3) have dis: "N \<inter> D = {}" "D \<inter> fallenPinIndicesThisThrow g = {}" by auto
  have c: "card (N \<union> D) = card N + card D"
    using N(1) D(1) dis(1) by (rule card_Un_disjoint)
  show ?case
  proof (intro exI [of _ "N \<union> D"] conjI)
    show "finite (N \<union> D)" using N(1) D(1) by simp
    show "(N \<union> D) \<inter> fallenPinIndicesThisThrow g = {}" using N(2) dis(2) by auto
    show "fallenPinIndicesThisThrow (run (e # es) g) = fallenPinIndicesThisThrow g \<union> (N \<union> D)"
      using D(3) N(3) by (simp add: r Un_assoc)
    show "score (run (e # es) g) = score g + int (card (N \<union> D))"
      using D(4) N(4) by (simp add: r c)
  qed
qed

lemma roll_run_score:
  assumes "\<forall>e \<in> set es. rollEvent e"
  shows "fallenPinIndicesThisThrow g \<subseteq> fallenPinIndicesThisThrow (run es g)"
    and "score (run es g) - score g =
         int (card (fallenPinIndicesThisThrow (run es g) - fallenPinIndicesThisThrow g))"
proof -
  from roll_run [OF assms, of g] obtain D where D: "finite D"
    "D \<inter> fallenPinIndicesThisThrow g = {}"
    "fallenPinIndicesThisThrow (run es g) = fallenPinIndicesThisThrow g \<union> D"
    "score (run es g) = score g + int (card D)" by blast
  from D(3) show "fallenPinIndicesThisThrow g \<subseteq> fallenPinIndicesThisThrow (run es g)" by simp
  from D(2) D(3) have "fallenPinIndicesThisThrow (run es g) - fallenPinIndicesThisThrow g = D"
    by auto
  with D(4) show "score (run es g) - score g =
         int (card (fallenPinIndicesThisThrow (run es g) - fallenPinIndicesThisThrow g))"
    by simp
qed

lemma sceneBuilt_pin:
  assumes "sceneBuilt g" "i < length (pins g)"
  shows "\<exists>pin. pins g ! i = Some pin \<and> pin_physicsImpostor pin"
proof -
  from assms(2) have "pins g ! i \<in> set (pins g)" by simp
  with assms(1) show ?thesis unfolding sceneBuilt_def by blast
qed

lemma sceneBuilt_newlyFallen:
  assumes "sceneBuilt g"
  shows "newlyFallen g = {i. i < length (pins g) \<and> i \<notin> fallenPinIndicesThisThrow g \<and>
           (\<exists>pin. pins g ! i = Some pin \<and> pinUpDot pin < 7 / 10)}"
proof (rule set_eqI)
  fix i
  show "i \<in> newlyFallen g \<longleftrightarrow> i \<in> {i. i < length (pins g) \<and> i \<notin> fallenPinIndicesThisThrow g \<and>
           (\<exists>pin. pins g ! i = Some pin \<and> pinUpDot pin < 7 / 10)}"
  proof (cases "i < length (pins g)")
    case True
    from sceneBuilt_pin [OF assms True] obtain pin where
      "pins g ! i = Some pin" "pin_physicsImpostor pin" by blast
    with True show ?thesis
      by (simp add: newlyFallen_def detected_set pinFallen_def PIN_FALLEN_THRESHOLD_def)
  next
    case False
    then show ?thesis by (simp add: newlyFallen_def detected_set)
  qed
qed

text \<open>
  Claim C1.  In every reachable state whose phase is \<^verbatim>\<open>BALL_ROLLING\<close>, one pass of the
  render loop adds to the fallen set exactly the pin indices whose up-vector has a dot
  product with the world vertical below \<open>0.7\<close>, and raises the score by the number of
  those that were not in the set before; all ten pins exist with a body.  Over any
  sequence of passes and physics steps the score grows by exactly the number of indices
  the fallen set gained, so no index is scored twice, however its pin moves.
\<close>

theorem C1_scoring_pass:
  assumes "reachable g" and "currentGameState g = BALL_ROLLING"
  shows "fallenPinIndicesThisThrow (tick now g) =
       fallenPinIndicesThisThrow g \<union>
         {i. i < length (pins g) \<and> (\<exists>pin. pins g ! i = Some pin \<and> pinUpDot pin < 7 / 10)}
    \<and> score (tick now g) =
       score g + int (card {i. i < length (pins g) \<and> i \<notin> fallenPinIndicesThisThrow g \<and>
         (\<exists>pin. pins g ! i = Some pin \<and> pinUpDot pin < 7 / 10)})
    \<and> length (pins g) = 10
    \<and> (\<forall>i < length (pins g). \<exists>pin. pins g ! i = Some pin \<and> pin_physicsImpostor pin)
    \<and> ((\<forall>e \<in> set es. rollEvent e) \<longrightarrow>
         fallenPinIndicesThisThrow g \<subseteq> fallenPinIndicesThisThrow (run es g) \<and>
         score (run es g) - score g =
           int (card (fallenPinIndicesThisThrow (run es g) - fallenPinIndicesThisThrow g)))"
proof -
  from assms(1) have "invariant g" by (rule reachable_invariant)
  then have sb: "sceneBuilt g" by (simp add: invariant_def)
  note nf = sceneBuilt_newlyFallen [OF sb]
  have f: "fallenPinIndicesThisThrow (tick now g) = fallenPinIndicesThisThrow g \<union> newlyFallen g"
    using assms(2) by (simp add: tick_score)
  have 1: "fallenPinIndicesThisThrow (tick now g) =
       fallenPinIndicesThisThrow g \<union>
         {i. i < length (pins g) \<and> (\<exists>pin. pins g ! i = Some pin \<and> pinUpDot pin < 7 / 10)}"
    unfolding f nf by blast
  have 2: "score (tick now g) =
       score g + int (card {i. i < length (pins g) \<and> i \<notin> fallenPinIndicesThisThrow g \<and>
         (\<exists>pin. pins g ! i = Some pin \<and> pinUpDot pin < 7 / 10)})"
    using assms(2) by (simp add: tick_score nf)
  have 3: "length (pins g) = 10" using sb by (simp add: sceneBuilt_def)
  have 4: "\<forall>i < length (pins g). \<exists>pin. pins g ! i = Some pin \<and> pin_physicsImpostor pin"
    using sceneBuilt_pin [OF sb] by blast
  have 5: "(\<forall>e \<in> set es. rollEvent e) \<longrightarrow>
         fallenPinIndicesThisThrow g \<subseteq> fallenPinIndicesThisThrow (run es g) \<and>
         score (run es g) - score g =
           int (card (fallenPinIndicesThisThrow (run es g) - fallenPinIndicesThisThrow g))"
    using roll_run_score [of es g] by blast
  from 1 2 3 4 5 show ?thesis by blast
qed

lemma heldGame_fields:
  "currentGameState heldGame = CHARGING"
  "chargeStartTime heldGame = 1000"
  "directionArrow heldGame = Some (startArrow\<lparr>scaling_y := 11 / 4\<rparr>)"
  "timers heldGame = []"
  "clock heldGame = 1750"
  "launchPower heldGame = 85"
  "currentAimAngle heldGame = 0"
  "score heldGame = 0"
  "fallenPinIndicesThisThrow heldGame = {}"
  "resetTimer heldGame = None"
  "nextTimerId heldGame = 2"
  "bowlingBall heldGame = Some (resetBall newBall)"
  "pins heldGame = map (\<lambda>pos. Some (newPin pos)) pinPositions"
  by (simp_all add: heldGame_def tick_def chargingGame_fields Let_def
      updateArrowCharging_def chargeRatio_def startArrow_def MIN_LAUNCH_FORCE_def
      MAX_LAUNCH_FORCE_def ARROW_LENGTH_MIN_def ARROW_LENGTH_MAX_def MAX_CHARGE_TIME_def)

lemma reachable_heldGame: "reachable heldGame"
  unfolding heldGame_def
  by (rule reach_step [OF reachable_chargingGame]) (simp add: chargingGame_fields)

lemma rollingGame_fields:
  "currentGameState rollingGame = BALL_ROLLING"
  "timers rollingGame = []"
  "clock rollingGame = 1750"
  "launchPower rollingGame = 85"
  "currentAimAngle rollingGame = 0"
  "score rollingGame = 0"
  "fallenPinIndicesThisThrow rollingGame = {}"
  "resetTimer rollingGame = None"
  "nextTimerId rollingGame = 2"
  "pins rollingGame = map (\<lambda>pos. Some (newPin pos)) pinPositions"
  by (simp_all add: rollingGame_def keyup_def isSpace_def isR_def heldGame_fields Let_def)

lemma reachable_rollingGame: "reachable rollingGame"
  unfolding rollingGame_def by (rule reach_step [OF reachable_heldGame]) simp

lemma reachable_struckGame: "reachable struckGame"
  unfolding struckGame_def by (rule reach_step [OF reachable_rollingGame]) simp

lemma pinUpDot_samples:
  "pinUpDot (newPin pos) = 1"
  "pinUpDot (p\<lparr>localUp := Vector3 1 0 0\<rparr>) = 0"
  "pinUpDot (p\<lparr>localUp := Vector3 0 1 0\<rparr>) = 1"
  by (simp_all add: pinUpDot_def newPin_def normalize_def vlength_def lengthSquared_def
      Dot_def AxisY_def)

lemma struckGame_fields:
  "currentGameState struckGame = BALL_ROLLING"
  "score struckGame = 0"
  "fallenPinIndicesThisThrow struckGame = {}"
  by (simp_all add: struckGame_def rollingGame_fields)

lemma detected_Cons:
  "detected k (p # ps) F =
     (if pinFallen p \<and> k \<notin> F then insert k (detected (Suc k) ps (insert k F))
      else detected (Suc k) ps F)"
  using detected_Cons_hit(1) [of p k F ps] detected_Cons_miss [of p k F ps] by auto

lemma pinFallen_samples:
  "\<not> pinFallen (Some (newPin pos))"
  "pinFallen (Some (newPin pos\<lparr>pin_position := q, localUp := Vector3 1 0 0\<rparr>))"
  "\<not> pinFallen (Some (newPin pos\<lparr>pin_position := q, localUp := Vector3 0 1 0\<rparr>))"
  by (simp_all add: pinFallen_def pinUpDot_def newPin_def normalize_def vlength_def
      lengthSquared_def Dot_def AxisY_def PIN_FALLEN_THRESHOLD_def)

lemma struckGame_pins:
  "pins struckGame =
     Some (newPin (Vector3 (- (15 / 10)) PIN_START_Y 20)
             \<lparr>pin_position := Vector3 (- (15 / 10)) PIN_START_Y 20, localUp := Vector3 1 0 0\<rparr>)
     # map (\<lambda>pos. Some (newPin pos)) (tl pinPositions)"
  by (simp add: struckGame_def rollingGame_fields movePins_def pinDown_def pinPositions_def
      newPin_def)

lemma detected_upright:
  "detected k (map (\<lambda>pos. Some (newPin pos)) ps) F = {}"
  by (induction ps arbitrary: k) (simp_all add: detected_Nil detected_Cons pinFallen_samples)

lemma struckGame_tick:
  "fallenPinIndicesThisThrow (tick 2000 struckGame) = {0}"
  "score (tick 2000 struckGame) = 1"
  by (simp_all add: tick_score struckGame_fields newlyFallen_def struckGame_pins
      detected_Cons detected_upright pinFallen_samples)

lemma wobble_run:
  "fallenPinIndicesThisThrow (run wobble struckGame) = {0}"
  "score (run wobble struckGame) = 1"
  by (simp_all add: run_def wobble_def tick_score struckGame_fields newlyFallen_def
      struckGame_pins movePins_def pinUp_def pinDown_def
      detected_Cons detected_upright pinFallen_samples)

theorem C1_scoring_pass_witness:
  "reachable struckGame \<and> currentGameState struckGame = BALL_ROLLING
   \<and> list_all rollEvent wobble
   \<and> score (run wobble struckGame) - score struckGame =
       int (card (fallenPinIndicesThisThrow (run wobble struckGame)
                   - fallenPinIndicesThisThrow struckGame))
   \<and> fallenPinIndicesThisThrow (tick 2000 struckGame) = {0}
   \<and> score (tick 2000 struckGame) = 1
   \<and> fallenPinIndicesThisThrow (run wobble struckGame) = {0}
   \<and> score (run wobble struckGame) = 1"
proof -
  have r: "reachable struckGame" by (rule reachable_struckGame)
  have s: "currentGameState struckGame = BALL_ROLLING" by (simp add: struckGame_fields)
  have w: "\<forall>e \<in> set wobble. rollEvent e" by (simp add: wobble_def)
  from C1_scoring_pass [OF r s, of 2000 wobble] w
  have c: "score (run wobble struckGame) - score struckGame =
       int (card (fallenPinIndicesThisThrow (run wobble struckGame)
                   - fallenPinIndicesThisThrow struckGame))"
    by blast
  have l: "list_all rollEvent wobble" by (simp add: wobble_def)
  show ?thesis by (intro conjI r s l c struckGame_tick wobble_run)
qed

subsection \<open>Launch impulse\<close>

lemma lengthSquared_direction: "lengthSquared (Vector3 (- sin a) 0 (cos a)) = 1"
proof -
  have "sin a * sin a + cos a * cos a = 1"
    using sin_cos_squared_add [of a] by (simp add: power2_eq_square)
  then show ?thesis by (simp add: lengthSquared_def)
qed

lemma launchDirection_eq: "launchDirection a = Vector3 (- sin a) 0 (cos a)"
  by (simp add: launchDirection_def normalize_def vlength_def lengthSquared_direction)

lemma vlength_launchDirection: "vlength (launchDirection a) = 1"
  by (simp add: launchDirection_eq vlength_def lengthSquared_direction)

lemma lengthSquared_scale: "lengthSquared (scale v k) = k * k * lengthSquared v"
  by (simp add: lengthSquared_def scale_def algebra_simps)

lemma vlength_scale: "0 \<le> k \<Longrightarrow> vlength (scale v k) = k * vlength v"
  by (simp add: vlength_def lengthSquared_scale real_sqrt_mult)

lemma aimedGame_fields:
  "currentGameState aimedGame = AIMING"
  "directionArrow aimedGame = Some (startArrow\<lparr>rotation_z := pi / 6\<rparr>)"
  "timers aimedGame = []"
  "clock aimedGame = 1000 * pi / 3"
  "launchPower aimedGame = 20"
  "currentAimAngle aimedGame = pi / 6"
  "score aimedGame = 0"
  "fallenPinIndicesThisThrow aimedGame = {}"
  "resetTimer aimedGame = None"
  "nextTimerId aimedGame = 2"
  "bowlingBall aimedGame = Some (resetBall newBall)"
  by (simp_all add: aimedGame_def tick_aiming [OF aimingGame_fields(1,2)] updateArrowAiming_def
      Let_def aimingGame_fields ARROW_OSCILLATION_SPEED_def ARROW_MAX_ANGLE_def startArrow_def)

lemma reachable_aimedGame: "reachable aimedGame"
  unfolding aimedGame_def
  by (rule reach_step [OF reachable_aimingGame]) (simp add: aimingGame_fields)

lemma aimedCharging_fields:
  "currentGameState aimedCharging = CHARGING"
  "chargeStartTime aimedCharging = 2000"
  "directionArrow aimedCharging = Some (startArrow\<lparr>rotation_z := pi / 6\<rparr>)"
  "timers aimedCharging = []"
  "clock aimedCharging = 2000"
  "launchPower aimedCharging = 20"
  "currentAimAngle aimedCharging = pi / 6"
  "resetTimer aimedCharging = None"
  "bowlingBall aimedCharging = Some (resetBall newBall)"
  by (simp_all add: aimedCharging_def keydown_def isSpace_def aimedGame_fields Let_def
      updateArrowCharging_def chargeRatio_def startArrow_def MIN_LAUNCH_FORCE_def
      MAX_LAUNCH_FORCE_def ARROW_LENGTH_MIN_def ARROW_LENGTH_MAX_def)

lemma pi_third_bound: "pi \<le> 6"
  using pi_less_4 by arith

lemma reachable_aimedCharging: "reachable aimedCharging"
  unfolding aimedCharging_def
  by (rule reach_step [OF reachable_aimedGame]) (simp add: aimedGame_fields pi_third_bound)

lemma aimedHeld_fields:
  "currentGameState aimedHeld = CHARGING"
  "directionArrow aimedHeld = Some (startArrow\<lparr>rotation_z := pi / 6, scaling_y := 4\<rparr>)"
  "timers aimedHeld = []"
  "clock aimedHeld = 3500"
  "launchPower aimedHeld = 150"
  "currentAimAngle aimedHeld = pi / 6"
  "resetTimer aimedHeld = None"
  "bowlingBall aimedHeld = Some (resetBall newBall)"
  by (simp_all add: aimedHeld_def tick_charging [OF aimedCharging_fields(1,3)]
      aimedCharging_fields updateArrowCharging_def chargeRatio_def startArrow_def
      MIN_LAUNCH_FORCE_def MAX_LAUNCH_FORCE_def ARROW_LENGTH_MIN_def ARROW_LENGTH_MAX_def
      MAX_CHARGE_TIME_def)

lemma reachable_aimedHeld: "reachable aimedHeld"
  unfolding aimedHeld_def
  by (rule reach_step [OF reachable_aimedCharging]) (simp add: aimedCharging_fields)

lemma keyup_launch:
  "isSpace key code \<Longrightarrow> \<not> isR key \<Longrightarrow> currentGameState g = CHARGING \<Longrightarrow>
   keyup key code merged g = launch g"
  by (simp add: keyup_def Let_def)

text \<open>
  Claim C3.  When the space bar is released in a reachable state whose phase is
  \<^verbatim>\<open>CHARGING\<close>, the phase becomes \<^verbatim>\<open>BALL_ROLLING\<close> and the ball's body receives one
  impulse: the launch direction \<open>(- sin a, 0, cos a)\<close> of the current aim angle \<open>a\<close>, a
  unit vector with no vertical component, scaled by the current launch power and applied
  at the ball's position.  The magnitude of the impulse is the launch power, and for
  \<open>a = 0\<close> the direction is \<open>(0, 0, 1)\<close>.
\<close>

theorem C3_launch_impulse:
  assumes "reachable g" and "currentGameState g = CHARGING"
    and "isSpace key code" and "\<not> isR key"
  shows "launchDirection (currentAimAngle g) =
           Vector3 (- sin (currentAimAngle g)) 0 (cos (currentAimAngle g))
    \<and> vlength (launchDirection (currentAimAngle g)) = 1
    \<and> vy (launchDirection (currentAimAngle g)) = 0
    \<and> currentGameState (keyup key code merged g) = BALL_ROLLING
    \<and> (\<exists>ball body. bowlingBall g = Some ball \<and> physicsImpostor ball = Some body \<and>
          bowlingBall (keyup key code merged g) =
            Some (ball\<lparr>physicsImpostor := Some (body\<lparr>appliedImpulses :=
              appliedImpulses body @
                [(scale (launchDirection (currentAimAngle g)) (launchPower g),
                  position ball)]\<rparr>)\<rparr>))
    \<and> vlength (scale (launchDirection (currentAimAngle g)) (launchPower g)) = launchPower g
    \<and> launchDirection 0 = Vector3 0 0 1"
proof -
  from assms(1) have inv: "invariant g" by (rule reachable_invariant)
  then have "powerOk g" by (simp add: invariant_def)
  then have p: "0 \<le> launchPower g" by (simp add: powerOk_def MIN_LAUNCH_FORCE_def)
  from inv have "sceneBuilt g" by (simp add: invariant_def)
  then obtain ball body where b: "bowlingBall g = Some ball" "physicsImpostor ball = Some body"
    by (auto simp: sceneBuilt_def)
  have k: "keyup key code merged g = launch g"
    using assms(3,4,2) by (rule keyup_launch)
  have 1: "launchDirection (currentAimAngle g) =
           Vector3 (- sin (currentAimAngle g)) 0 (cos (currentAimAngle g))"
    by (rule launchDirection_eq)
  have 2: "vlength (launchDirection (currentAimAngle g)) = 1"
    by (rule vlength_launchDirection)
  have 3: "vy (launchDirection (currentAimAngle g)) = 0"
    by (simp add: launchDirection_eq)
  have 4: "currentGameState (keyup key code merged g) = BALL_ROLLING"
    by (simp add: k)
  have 5: "\<exists>ball body. bowlingBall g = Some ball \<and> physicsImpostor ball = Some body \<and>
          bowlingBall (keyup key code merged g) =
            Some (ball\<lparr>physicsImpostor := Some (body\<lparr>appliedImpulses :=
              appliedImpulses body @
                [(scale (launchDirection (currentAimAngle g)) (launchPower g),
                  position ball)]\<rparr>)\<rparr>)"
    using b by (simp add: k launch_ball [OF b] applyImpulse_def)
  have 6: "vlength (scale (launchDirection (currentAimAngle g)) (launchPower g)) = launchPower g"
    using p by (simp add: vlength_scale vlength_launchDirection)
  have 7: "launchDirection 0 = Vector3 0 0 1"
    by (simp add: launchDirection_eq)
  from 1 2 3 4 5 6 7 show ?thesis by blast
qed

lemma aimedLaunched_ball:
  "bowlingBall aimedLaunched =
     Some \<lparr>position = BALL_START_POS,
           physicsImpostor = Some \<lparr>linearVelocity = Some Zero, angularVelocity = Some Zero,
             appliedImpulses = [(Vector3 (- 75) 0 (75 * sqrt 3), BALL_START_POS)]\<rparr>\<rparr>"
  by (simp add: aimedLaunched_def keyup_def isSpace_def isR_def Let_def aimedHeld_fields
      launch_def resetBall_def newBall_def stopBody_def applyImpulse_def launchDirection_eq
      scale_def sin_30 cos_30)

theorem C3_launch_impulse_witness:
  "reachable aimedHeld \<and> currentGameState aimedHeld = CHARGING
   \<and> isSpace '' '' ''Space'' \<and> \<not> isR '' ''
   \<and> currentGameState (keyup '' '' ''Space'' True aimedHeld) = BALL_ROLLING
   \<and> vlength (scale (launchDirection (currentAimAngle aimedHeld)) (launchPower aimedHeld)) = 150
   \<and> bowlingBall (keyup '' '' ''Space'' True aimedHeld) =
     Some \<lparr>position = BALL_START_POS,
           physicsImpostor = Some \<lparr>linearVelocity = Some Zero, angularVelocity = Some Zero,
             appliedImpulses = [(Vector3 (- 75) 0 (75 * sqrt 3), BALL_START_POS)]\<rparr>\<rparr>"
proof -
  have r: "reachable aimedHeld" by (rule reachable_aimedHeld)
  have c: "currentGameState aimedHeld = CHARGING" by (simp add: aimedHeld_fields)
  have s: "isSpace '' '' ''Space''" by (simp add: isSpace_def)
  have n: "\<not> isR '' ''" by (simp add: isR_def)
  note t = C3_launch_impulse [OF r c s n, of True]
  from t have st: "currentGameState (keyup '' '' ''Space'' True aimedHeld) = BALL_ROLLING"
    by blast
  from t have "vlength (scale (launchDirection (currentAimAngle aimedHeld))
      (launchPower aimedHeld)) = launchPower aimedHeld"
    by blast
  then have m: "vlength (scale (launchDirection (currentAimAngle aimedHeld))
      (launchPower aimedHeld)) = 150"
    by (simp add: aimedHeld_fields)
  have b: "bowlingBall (keyup '' '' ''Space'' True aimedHeld) =
     Some \<lparr>position = BALL_START_POS,
           physicsImpostor = Some \<lparr>linearVelocity = Some Zero, angularVelocity = Some Zero,
             appliedImpulses = [(Vector3 (- 75) 0 (75 * sqrt 3), BALL_START_POS)]\<rparr>\<rparr>"
    using aimedLaunched_ball by (simp add: aimedLaunched_def)
  show ?thesis by (intro conjI r c s n st m b)
qed

subsection \<open>Resets, fallen set and score\<close>

lemma keyup_fullReset:
  "fullReset (KeyUp key code merged) g \<Longrightarrow>
   \<exists>g'. keyup key code merged g = resetGame merged g'"
  by (auto simp: keyup_def Let_def)

lemma keyup_no_fullReset:
  "\<not> fullReset (KeyUp key code merged) g \<Longrightarrow>
   keyup key code merged g = g \<or>
   (currentGameState g = CHARGING \<and> keyup key code merged g = launch g)"
  by (auto simp: keyup_def Let_def)

lemma step_reset:
  assumes "fullReset e g \<or> throwReset e g" "timersOk g"
  shows "currentGameState g \<noteq> RESETTING" "currentGameState (step e g) = RESETTING"
    "fallenPinIndicesThisThrow (step e g) = {}"
proof -
  have "currentGameState g \<noteq> RESETTING \<and> currentGameState (step e g) = RESETTING \<and>
    fallenPinIndicesThisThrow (step e g) = {}"
  proof (cases e)
    case (KeyUp key code merged)
    with assms(1) have f: "fullReset (KeyUp key code merged) g" by simp
    from keyup_fullReset [OF f] obtain g' where "keyup key code merged g = resetGame merged g'"
      by blast
    with f show ?thesis by (simp add: KeyUp)
  next
    case (Timeout h)
    with assms(1) obtain d where m: "(h, d, StoppedReset) \<in> set (timers g)"
      by (fastforce simp: list_ex_iff)
    from assms(2) have st: "settleOk (timers g) (resetTimer g) (currentGameState g)"
      by (simp add: timersOk_def)
    from st m have "resetTimer g = Some h" by (fastforce simp: settleOk_def)
    with st have roll: "currentGameState g = BALL_ROLLING" by (simp add: settleOk_def)
    from assms(2) have "idsOk (timers g) (nextTimerId g)" by (simp add: timersOk_def)
    then have dist: "distinct (map fst (timers g))" by (simp add: idsOk_def)
    have "timeout h g = stoppedResetCallback (clearTimeout h g)"
    proof (rule timeout_cases [of h g])
      assume "\<forall>t \<in> set (timers g). fst t \<noteq> h"
      with m show ?thesis by fastforce
    next
      fix d' assume "(h, d', ToAiming) \<in> set (timers g)"
      with m dist have False by (meson Callback.distinct(1) eq_key_imp_eq_value prod.inject)
      then show ?thesis ..
    qed
    with roll show ?thesis by (simp add: Timeout stoppedResetCallback_def)
  qed (use assms in simp_all)
  then show "currentGameState g \<noteq> RESETTING" "currentGameState (step e g) = RESETTING"
    "fallenPinIndicesThisThrow (step e g) = {}" by simp_all
qed

lemma timeout_no_throwReset:
  assumes "\<not> throwReset (Timeout h) g"
  shows "timeout h g = g \<or> timeout h g = toAimingCallback (clearTimeout h g)"
proof (rule timeout_cases [of h g])
  fix d assume "(h, d, StoppedReset) \<in> set (timers g)"
  with assms have False by (force simp: list_ex_iff)
  then show ?thesis ..
qed simp_all

lemma toAimingCallback_fields [simp]:
  "score (toAimingCallback g) = score g"
  "fallenPinIndicesThisThrow (toAimingCallback g) = fallenPinIndicesThisThrow g"
  "pins (toAimingCallback g) = pins g"
  "bowlingBall (toAimingCallback g) = bowlingBall g"
  "currentAimAngle (toAimingCallback g) = currentAimAngle g"
  "launchPower (toAimingCallback g) = launchPower g"
  "timers (toAimingCallback g) = timers g"
  "resetTimer (toAimingCallback g) = resetTimer g"
  "nextTimerId (toAimingCallback g) = nextTimerId g"
  by (simp_all add: toAimingCallback_def)

lemma toAimingCallback_state:
  "currentGameState (toAimingCallback g) =
     (if currentGameState g = RESETTING then AIMING else currentGameState g)"
  by (simp add: toAimingCallback_def)

lemma step_no_reset:
  assumes "\<not> fullReset e g" "\<not> throwReset e g"
  shows "fallenPinIndicesThisThrow g \<subseteq> fallenPinIndicesThisThrow (step e g)"
    and "currentGameState (step e g) = RESETTING \<longrightarrow> currentGameState g = RESETTING"
    and "score (step e g) =
      (if (\<exists>now. e = Tick now) \<and> currentGameState g = BALL_ROLLING
       then score g + int (card (newlyFallen g)) else score g)"
proof -
  have "fallenPinIndicesThisThrow g \<subseteq> fallenPinIndicesThisThrow (step e g) \<and>
    (currentGameState (step e g) = RESETTING \<longrightarrow> currentGameState g = RESETTING) \<and>
    score (step e g) =
      (if (\<exists>now. e = Tick now) \<and> currentGameState g = BALL_ROLLING
       then score g + int (card (newlyFallen g)) else score g)"
  proof (cases e)
    case (Tick now)
    then show ?thesis by (simp add: tick_score)
  next
    case (KeyDown key code now)
    then show ?thesis by (simp add: keydown_def Let_def updateArrowCharging_def split: option.splits)
  next
    case (KeyUp key code merged)
    with assms(1) have "\<not> fullReset (KeyUp key code merged) g" by simp
    from keyup_no_fullReset [OF this] show ?thesis by (auto simp: KeyUp)
  next
    case (Timeout h)
    with assms(2) have "\<not> throwReset (Timeout h) g" by simp
    from timeout_no_throwReset [OF this] show ?thesis
      by (auto simp: Timeout toAimingCallback_state split: if_splits)
  next
    case (Physics m ms)
    then show ?thesis by simp
  qed
  then show "fallenPinIndicesThisThrow g \<subseteq> fallenPinIndicesThisThrow (step e g)"
    and "currentGameState (step e g) = RESETTING \<longrightarrow> currentGameState g = RESETTING"
    and "score (step e g) =
      (if (\<exists>now. e = Tick now) \<and> currentGameState g = BALL_ROLLING
       then score g + int (card (newlyFallen g)) else score g)"
    by simp_all
qed

lemma throwReset_score:
  assumes "throwReset e g"
  shows "score (step e g) = score g"
proof (cases e)
  case (Timeout h)
  show ?thesis
  proof (rule timeout_cases [of h g])
    assume "timeout h g = g"
    then show ?thesis by (simp add: Timeout)
  next
    fix d assume "timeout h g = stoppedResetCallback (clearTimeout h g)"
    then show ?thesis by (simp add: Timeout stoppedResetCallback_def)
  next
    fix d assume "timeout h g = toAimingCallback (clearTimeout h g)"
    then show ?thesis by (simp add: Timeout)
  qed
qed (use assms in simp_all)

lemma fullReset_score: "fullReset e g \<Longrightarrow> score (step e g) = 0"
proof (cases e)
  case (KeyUp key code merged)
  assume "fullReset e g"
  with KeyUp have "fullReset (KeyUp key code merged) g" by simp
  from keyup_fullReset [OF this] show ?thesis by (auto simp: KeyUp)
qed simp_all

text \<open>
  Claim C4.  In every reachable state the fallen set holds at most ten pin indices.  The
  scoring pass only adds indices.  Both reset routines empty the set.  A step of the game
  either keeps every index of the set, or it is a reset (the full reset on R, or the
  settle callback running the per-throw reset) that leaves a phase other than
  \<^verbatim>\<open>RESETTING\<close>, enters \<^verbatim>\<open>RESETTING\<close> and empties the set; and every step that enters
  \<^verbatim>\<open>RESETTING\<close> is such a reset.
\<close>

theorem C4_fallen_set:
  assumes "reachable g"
  shows "finite (fallenPinIndicesThisThrow g) \<and> card (fallenPinIndicesThisThrow g) \<le> 10
    \<and> fallenPinIndicesThisThrow g \<subseteq> fallenPinIndicesThisThrow (checkFallenPins g)
    \<and> fallenPinIndicesThisThrow (resetForNextThrow g) = {}
    \<and> fallenPinIndicesThisThrow (resetGame merged g) = {}
    \<and> (fullReset e g \<or> throwReset e g \<longrightarrow>
          currentGameState g \<noteq> RESETTING \<and> currentGameState (step e g) = RESETTING \<and>
          fallenPinIndicesThisThrow (step e g) = {})
    \<and> (\<not> (fullReset e g \<or> throwReset e g) \<longrightarrow>
          fallenPinIndicesThisThrow g \<subseteq> fallenPinIndicesThisThrow (step e g) \<and>
          (currentGameState (step e g) = RESETTING \<longrightarrow> currentGameState g = RESETTING))"
proof -
  from assms have inv: "invariant g" by (rule reachable_invariant)
  then have sb: "sceneBuilt g" and so: "scoreOk g" and ok: "timersOk g"
    by (simp_all add: invariant_def)
  from sb so have sub: "fallenPinIndicesThisThrow g \<subseteq> {..<10}"
    by (simp add: sceneBuilt_def scoreOk_def)
  then have 1: "finite (fallenPinIndicesThisThrow g)" by (rule finite_subset) simp
  have "card (fallenPinIndicesThisThrow g) \<le> card {..<10::nat}"
    using sub by (intro card_mono) simp_all
  then have 2: "card (fallenPinIndicesThisThrow g) \<le> 10" by simp
  have 3: "fallenPinIndicesThisThrow g \<subseteq> fallenPinIndicesThisThrow (checkFallenPins g)"
    by simp
  have 4: "fallenPinIndicesThisThrow (resetForNextThrow g) = {}"
    "fallenPinIndicesThisThrow (resetGame merged g) = {}" by simp_all
  have 5: "fullReset e g \<or> throwReset e g \<longrightarrow>
          currentGameState g \<noteq> RESETTING \<and> currentGameState (step e g) = RESETTING \<and>
          fallenPinIndicesThisThrow (step e g) = {}"
    using step_reset [of e g] ok by blast
  have 6: "\<not> (fullReset e g \<or> throwReset e g) \<longrightarrow>
          fallenPinIndicesThisThrow g \<subseteq> fallenPinIndicesThisThrow (step e g) \<and>
          (currentGameState (step e g) = RESETTING \<longrightarrow> currentGameState g = RESETTING)"
    using step_no_reset(1,2) [of e g] by blast
  from 1 2 3 4 5 6 show ?thesis by blast
qed

text \<open>
  Claim C5.  In every reachable state the score is a non-negative integer.  The full
  reset sets it to zero; the per-throw reset leaves it alone; a pass of the render loop
  while rolling adds the number of newly fallen pins; every other step leaves it
  unchanged.  Hence a step that lowers the score is a full reset.
\<close>

theorem C5_score:
  assumes "reachable g"
  shows "0 \<le> score g
    \<and> score (resetGame merged g) = 0
    \<and> score (resetForNextThrow g) = score g
    \<and> (fullReset e g \<longrightarrow> score (step e g) = 0)
    \<and> (throwReset e g \<longrightarrow> score (step e g) = score g)
    \<and> (\<not> fullReset e g \<longrightarrow>
          score (step e g) =
            (if (\<exists>now. e = Tick now) \<and> currentGameState g = BALL_ROLLING
             then score g + int (card (newlyFallen g)) else score g))
    \<and> (score (step e g) < score g \<longrightarrow> fullReset e g)"
proof -
  from assms have inv: "invariant g" by (rule reachable_invariant)
  then have 1: "0 \<le> score g" by (simp add: invariant_def scoreOk_def)
  have 2: "score (resetGame merged g) = 0" "score (resetForNextThrow g) = score g"
    by simp_all
  have 3: "fullReset e g \<longrightarrow> score (step e g) = 0"
    using fullReset_score [of e g] by blast
  have 4: "throwReset e g \<longrightarrow> score (step e g) = score g"
    using throwReset_score [of e g] by blast
  have t: "throwReset e g \<Longrightarrow> \<not> (\<exists>now. e = Tick now)" by (cases e) simp_all
  have 5: "\<not> fullReset e g \<longrightarrow>
          score (step e g) =
            (if (\<exists>now. e = Tick now) \<and> currentGameState g = BALL_ROLLING
             then score g + int (card (newlyFallen g)) else score g)"
  proof (cases "throwReset e g")
    case True
    with t throwReset_score [of e g] show ?thesis by simp
  next
    case False
    with step_no_reset(3) [of e g] show ?thesis by blast
  qed
  have 6: "score (step e g) < score g \<longrightarrow> fullReset e g"
  proof (cases "fullReset e g")
    case False
    with 5 have "score g \<le> score (step e g)" by (simp split: if_splits)
    then show ?thesis by simp
  qed simp
  from 1 2 3 4 5 6 show ?thesis by blast
qed

lemma rollingGame_ball:
  "bowlingBall rollingGame =
     Some \<lparr>position = BALL_START_POS,
           physicsImpostor = Some \<lparr>linearVelocity = Some Zero, angularVelocity = Some Zero,
             appliedImpulses = [(Vector3 0 0 85, BALL_START_POS)]\<rparr>\<rparr>"
  by (simp add: rollingGame_def keyup_def isSpace_def isR_def Let_def heldGame_fields
      launch_def resetBall_def newBall_def stopBody_def applyImpulse_def launchDirection_eq
      scale_def)

lemma struckGame_more:
  "timers struckGame = []" "resetTimer struckGame = None" "nextTimerId struckGame = 2"
  "clock struckGame = 1750"
  "isBallStopped struckGame = Some False"
  by (simp_all add: struckGame_def rollingGame_fields rollingGame_ball isBallStopped_def
      moveBall_def ballMoving_def lengthSquared_def Zero_def)

lemma struckGame_ball:
  "bowlingBall struckGame =
     Some \<lparr>position = Vector3 0 BALL_START_Y 16,
           physicsImpostor = Some \<lparr>linearVelocity = Some (Vector3 0 0 2),
             angularVelocity = Some Zero,
             appliedImpulses = [(Vector3 0 0 85, BALL_START_POS)]\<rparr>\<rparr>"
  by (simp add: struckGame_def rollingGame_ball moveBall_def ballMoving_def)

lemma newlyFallen_struckGame: "newlyFallen struckGame = {0}"
  by (simp add: newlyFallen_def struckGame_pins struckGame_fields detected_Cons
      detected_upright pinFallen_samples)

lemma scoredGame_fields:
  "currentGameState scoredGame = BALL_ROLLING"
  "score scoredGame = 1"
  "fallenPinIndicesThisThrow scoredGame = {0}"
  "timers scoredGame = []" "resetTimer scoredGame = None" "nextTimerId scoredGame = 2"
  "clock scoredGame = 2000"
  "pins scoredGame = pins struckGame"
  "bowlingBall scoredGame = bowlingBall struckGame"
  by (simp_all add: scoredGame_def tick_score tick_timers rollingTick_timers struckGame_fields
      struckGame_more newlyFallen_struckGame truthy_def timerSet_def)

lemma reachable_scoredGame: "reachable scoredGame"
  unfolding scoredGame_def
  by (rule reach_step [OF reachable_struckGame]) (simp add: struckGame_more)

lemma reachable_restGame: "reachable restGame"
  unfolding restGame_def by (rule reach_step [OF reachable_scoredGame]) simp

lemma restGame_fields:
  "currentGameState restGame = BALL_ROLLING"
  "score restGame = 1"
  "fallenPinIndicesThisThrow restGame = {0}"
  "timers restGame = []" "resetTimer restGame = None" "nextTimerId restGame = 2"
  "clock restGame = 2000"
  "pins restGame = pins struckGame"
  "isBallStopped restGame = Some True"
  by (simp_all add: restGame_def scoredGame_fields struckGame_pins movePins_def pinDown_def
      newPin_def struckGame_ball isBallStopped_def moveBall_def ballAtRest_def
      lengthSquared_def Zero_def)

lemma newlyFallen_restGame: "newlyFallen restGame = {}"
  by (simp add: newlyFallen_def restGame_fields struckGame_pins detected_Cons
      detected_upright pinFallen_samples)

lemma settlingGame_fields:
  "currentGameState settlingGame = BALL_ROLLING"
  "score settlingGame = 1"
  "fallenPinIndicesThisThrow settlingGame = {0}"
  "timers settlingGame = [(2, 500, StoppedReset)]"
  "resetTimer settlingGame = Some 2" "nextTimerId settlingGame = 3"
  "clock settlingGame = 2500"
  "pins settlingGame = pins struckGame"
  "bowlingBall settlingGame = bowlingBall restGame"
  by (simp_all add: settlingGame_def tick_score tick_timers rollingTick_timers restGame_fields
      newlyFallen_restGame truthy_def timerSet_def)

lemma reachable_settlingGame: "reachable settlingGame"
  unfolding settlingGame_def
  by (rule reach_step [OF reachable_restGame]) (simp add: restGame_fields)



theorem C4_fallen_set_witness:
  "reachable settlingGame
   \<and> throwReset (Timeout 2) settlingGame
   \<and> fallenPinIndicesThisThrow settlingGame = {0}
   \<and> card (fallenPinIndicesThisThrow settlingGame) \<le> 10
   \<and> currentGameState (step (Timeout 2) settlingGame) = RESETTING
   \<and> fallenPinIndicesThisThrow (step (Timeout 2) settlingGame) = {}
   \<and> \<not> (fullReset (Tick 2600) settlingGame \<or> throwReset (Tick 2600) settlingGame)
   \<and> fallenPinIndicesThisThrow settlingGame
        \<subseteq> fallenPinIndicesThisThrow (step (Tick 2600) settlingGame)"
proof -
  have r: "reachable settlingGame" by (rule reachable_settlingGame)
  have t: "throwReset (Timeout 2) settlingGame" by (simp add: settlingGame_fields)
  have f: "fallenPinIndicesThisThrow settlingGame = {0}" by (simp add: settlingGame_fields)
  have n: "\<not> (fullReset (Tick 2600) settlingGame \<or> throwReset (Tick 2600) settlingGame)"
    by simp
  note a = C4_fallen_set [OF r, of True "Timeout 2"]
  note b = C4_fallen_set [OF r, of True "Tick 2600"]
  from a have c: "card (fallenPinIndicesThisThrow settlingGame) \<le> 10" by blast
  from a t have s: "currentGameState (step (Timeout 2) settlingGame) = RESETTING"
    and e: "fallenPinIndicesThisThrow (step (Timeout 2) settlingGame) = {}" by blast+
  from b n have k: "fallenPinIndicesThisThrow settlingGame
        \<subseteq> fallenPinIndicesThisThrow (step (Tick 2600) settlingGame)" by blast
  show ?thesis by (intro conjI r t f c s e n k)
qed

theorem C5_score_witness:
  "reachable scoredGame \<and> score scoredGame = 1
   \<and> fullReset (KeyUp ''r'' ''KeyR'' True) scoredGame
   \<and> score (step (KeyUp ''r'' ''KeyR'' True) scoredGame) = 0
   \<and> reachable settlingGame \<and> throwReset (Timeout 2) settlingGame
   \<and> score (step (Timeout 2) settlingGame) = 1
   \<and> reachable struckGame \<and> \<not> fullReset (Tick 2000) struckGame
   \<and> score struckGame = 0 \<and> score (step (Tick 2000) struckGame) = 1"
proof -
  have r1: "reachable scoredGame" by (rule reachable_scoredGame)
  have s1: "score scoredGame = 1" by (simp add: scoredGame_fields)
  have f1: "fullReset (KeyUp ''r'' ''KeyR'' True) scoredGame"
    by (simp add: isR_def scoredGame_fields)
  from C5_score [OF r1, of True "KeyUp ''r'' ''KeyR'' True"] f1
  have z: "score (step (KeyUp ''r'' ''KeyR'' True) scoredGame) = 0" by blast
  have r2: "reachable settlingGame" by (rule reachable_settlingGame)
  have t2: "throwReset (Timeout 2) settlingGame" by (simp add: settlingGame_fields)
  from C5_score [OF r2, of True "Timeout 2"] t2
  have "score (step (Timeout 2) settlingGame) = score settlingGame" by blast
  then have k: "score (step (Timeout 2) settlingGame) = 1" by (simp add: settlingGame_fields)
  have r3: "reachable struckGame" by (rule reachable_struckGame)
  have n3: "\<not> fullReset (Tick 2000) struckGame" by simp
  have s3: "score struckGame = 0" by (simp add: struckGame_fields)
  from C5_score [OF r3, of True "Tick 2000"] n3
  have "score (step (Tick 2000) struckGame) =
      (if (\<exists>now. Tick 2000 = Tick now) \<and> currentGameState struckGame = BALL_ROLLING
       then score struckGame + int (card (newlyFallen struckGame)) else score struckGame)"
    by blast
  then have i: "score (step (Tick 2000) struckGame) = 1"
    by (simp add: struckGame_fields newlyFallen_struckGame)
  show ?thesis by (intro conjI r1 s1 f1 z r2 t2 k r3 n3 s3 i)
qed

subsection \<open>Aim angle\<close>










subsection \<open>Per-throw reset\<close>

lemma find_append_None: "find P xs = None \<Longrightarrow> find P (xs @ ys) = find P ys"
  by (induction xs) (auto split: if_splits)

lemma timeout_fresh:
  assumes "idsOk (timers g) (nextTimerId g)"
    and "timers g' = timers g @ [(nextTimerId g, d, cb)]"
  shows "timeout (nextTimerId g) g' = runCallback cb (clearTimeout (nextTimerId g) g')"
proof -
  from assms(1) have "\<forall>t \<in> set (timers g). fst t \<noteq> nextTimerId g"
    by (auto simp: idsOk_def)
  then have "find (\<lambda>t. fst t = nextTimerId g) (timers g) = None"
    by (auto simp: find_None_iff)
  then have "find (\<lambda>t. fst t = nextTimerId g) (timers g') = Some (nextTimerId g, d, cb)"
    by (simp add: assms(2) find_append_None)
  then show ?thesis by (simp add: timeout_def)
qed

lemma start_positions:
  "BALL_START_POS = Vector3 0 (9 / 20) (- 5)"
  "arrowStartPos = Vector3 0 (11 / 20) (- (22 / 5))"
  by (simp_all add: BALL_START_POS_def arrowStartPos_def BALL_START_Y_def LANE_TOP_Y_def
      LANE_POS_Y_def LANE_HEIGHT_def BALL_RADIUS_def BALL_DIAMETER_def)

text \<open>
  Claim C7.  Applied to a reachable state, \<open>resetForNextThrow\<close> leaves the ball at the
  start position \<open>(0, 0.45, -5)\<close> with linear and angular velocity zero, puts the aim
  indicator (if there is one) back to its start pose, visible, empties the fallen set,
  sets the launch power to \<open>20\<close> and the aim angle to \<open>0\<close>, enters \<^verbatim>\<open>RESETTING\<close> and
  registers a timeout of 100 ms whose firing moves the phase to \<^verbatim>\<open>AIMING\<close>.  The score
  and the pins are the same before the reset, after it, and after the timeout.
\<close>

theorem C7_reset_for_next_throw:
  assumes "reachable g"
  shows "(\<exists>ball body. bowlingBall (resetForNextThrow g) = Some ball \<and>
            position ball = Vector3 0 (9 / 20) (- 5) \<and>
            physicsImpostor ball = Some body \<and>
            linearVelocity body = Some (Vector3 0 0 0) \<and>
            angularVelocity body = Some (Vector3 0 0 0))
    \<and> directionArrow (resetForNextThrow g) =
          map_option (\<lambda>a. \<lparr>rotation_z = 0, scaling_y = 3 / 2, isVisible = True,
                            arrow_position = Vector3 0 (11 / 20) (- (22 / 5))\<rparr>)
            (directionArrow g)
    \<and> fallenPinIndicesThisThrow (resetForNextThrow g) = {}
    \<and> launchPower (resetForNextThrow g) = 20
    \<and> currentAimAngle (resetForNextThrow g) = 0
    \<and> currentGameState (resetForNextThrow g) = RESETTING
    \<and> timers (resetForNextThrow g) = timers g @ [(nextTimerId g, 100, ToAiming)]
    \<and> currentGameState (step (Timeout (nextTimerId g)) (resetForNextThrow g)) = AIMING
    \<and> score (resetForNextThrow g) = score g
    \<and> pins (resetForNextThrow g) = pins g
    \<and> score (step (Timeout (nextTimerId g)) (resetForNextThrow g)) = score g
    \<and> pins (step (Timeout (nextTimerId g)) (resetForNextThrow g)) = pins g"
proof -
  from assms have inv: "invariant g" by (rule reachable_invariant)
  then have sb: "sceneBuilt g" and ok: "timersOk g" by (simp_all add: invariant_def)
  from sb obtain ball body where b: "bowlingBall g = Some ball" "physicsImpostor ball = Some body"
    by (auto simp: sceneBuilt_def)
  have 1: "\<exists>ball body. bowlingBall (resetForNextThrow g) = Some ball \<and>
            position ball = Vector3 0 (9 / 20) (- 5) \<and>
            physicsImpostor ball = Some body \<and>
            linearVelocity body = Some (Vector3 0 0 0) \<and>
            angularVelocity body = Some (Vector3 0 0 0)"
    using b by (simp add: resetBall_def stopBody_def start_positions Zero_def)
  have 2: "directionArrow (resetForNextThrow g) =
          map_option (\<lambda>a. \<lparr>rotation_z = 0, scaling_y = 3 / 2, isVisible = True,
                            arrow_position = Vector3 0 (11 / 20) (- (22 / 5))\<rparr>)
            (directionArrow g)"
    by (cases "directionArrow g")
      (simp_all add: resetArrow_def start_positions ARROW_LENGTH_MIN_def)
  have 3: "fallenPinIndicesThisThrow (resetForNextThrow g) = {}"
    "launchPower (resetForNextThrow g) = 20"
    "currentAimAngle (resetForNextThrow g) = 0"
    "currentGameState (resetForNextThrow g) = RESETTING"
    "timers (resetForNextThrow g) = timers g @ [(nextTimerId g, 100, ToAiming)]"
    "score (resetForNextThrow g) = score g"
    "pins (resetForNextThrow g) = pins g"
    by (simp_all add: MIN_LAUNCH_FORCE_def)
  from ok have ids: "idsOk (timers g) (nextTimerId g)" by (simp add: timersOk_def)
  have t: "timeout (nextTimerId g) (resetForNextThrow g) =
      toAimingCallback (clearTimeout (nextTimerId g) (resetForNextThrow g))"
    using timeout_fresh [OF ids 3(5)] by simp
  have 4: "currentGameState (step (Timeout (nextTimerId g)) (resetForNextThrow g)) = AIMING"
    "score (step (Timeout (nextTimerId g)) (resetForNextThrow g)) = score g"
    "pins (step (Timeout (nextTimerId g)) (resetForNextThrow g)) = pins g"
    by (simp_all add: t toAimingCallback_state)
  from 1 2 3 4 show ?thesis by blast
qed

theorem C7_reset_for_next_throw_witness:
  "reachable scoredGame
   \<and> score scoredGame = 1 \<and> fallenPinIndicesThisThrow scoredGame = {0}
   \<and> nextTimerId scoredGame = 2
   \<and> score (resetForNextThrow scoredGame) = 1
   \<and> fallenPinIndicesThisThrow (resetForNextThrow scoredGame) = {}
   \<and> currentGameState (resetForNextThrow scoredGame) = RESETTING
   \<and> currentGameState (step (Timeout 2) (resetForNextThrow scoredGame)) = AIMING
   \<and> score (step (Timeout 2) (resetForNextThrow scoredGame)) = 1"
proof -
  have r: "reachable scoredGame" by (rule reachable_scoredGame)
  have s: "score scoredGame = 1" and f: "fallenPinIndicesThisThrow scoredGame = {0}"
    and n: "nextTimerId scoredGame = 2"
    by (simp_all add: scoredGame_fields)
  note t = C7_reset_for_next_throw [OF r]
  from t s have 1: "score (resetForNextThrow scoredGame) = 1" by simp
  from t have 2: "fallenPinIndicesThisThrow (resetForNextThrow scoredGame) = {}" by blast
  from t have 3: "currentGameState (resetForNextThrow scoredGame) = RESETTING" by blast
  from t have "currentGameState (step (Timeout (nextTimerId scoredGame))
      (resetForNextThrow scoredGame)) = AIMING" by blast
  then have 4: "currentGameState (step (Timeout 2) (resetForNextThrow scoredGame)) = AIMING"
    by (simp add: n)
  from t have "score (step (Timeout (nextTimerId scoredGame))
      (resetForNextThrow scoredGame)) = score scoredGame" by blast
  then have 5: "score (step (Timeout 2) (resetForNextThrow scoredGame)) = 1"
    by (simp add: n s)
  show ?thesis by (intro conjI r s f n 1 2 3 4 5)
qed

subsection \<open>Settle detector\<close>












subsection \<open>Deferred callbacks\<close>





subsection \<open>Missing ball and missing velocity\<close>

text \<open>
  Claim C10.  When there is no ball, or the ball has no body, \<open>isBallStopped\<close> returns
  \<^verbatim>\<open>true\<close>, so a pass of the render loop in phase \<^verbatim>\<open>BALL_ROLLING\<close> with no reset
  timer set registers the settle callback.  When the ball and its body exist and one of
  the velocity accessors answers \<^verbatim>\<open>null\<close>, \<open>isBallStopped\<close> returns that \<^verbatim>\<open>null\<close>,
  which is falsy.
\<close>

theorem C10_missing_ball:
  "(bowlingBall g = None \<or> (\<exists>ball. bowlingBall g = Some ball \<and> physicsImpostor ball = None)
      \<longrightarrow> isBallStopped g = Some True \<and> truthy (isBallStopped g) \<and>
          (currentGameState g = BALL_ROLLING \<and> \<not> timerSet (resetTimer g) \<longrightarrow>
             timers (tick now g) = timers g @ [(nextTimerId g, 500, StoppedReset)] \<and>
             resetTimer (tick now g) = Some (nextTimerId g)))
   \<and> (\<forall>ball body. bowlingBall g = Some ball \<and> physicsImpostor ball = Some body \<and>
          (linearVelocity body = None \<or> angularVelocity body = None)
      \<longrightarrow> isBallStopped g = None \<and> \<not> truthy (isBallStopped g))"
proof -
  have 1: "bowlingBall g = None \<or> (\<exists>ball. bowlingBall g = Some ball \<and> physicsImpostor ball = None)
      \<longrightarrow> isBallStopped g = Some True \<and> truthy (isBallStopped g) \<and>
          (currentGameState g = BALL_ROLLING \<and> \<not> timerSet (resetTimer g) \<longrightarrow>
             timers (tick now g) = timers g @ [(nextTimerId g, 500, StoppedReset)] \<and>
             resetTimer (tick now g) = Some (nextTimerId g))"
  proof
    assume "bowlingBall g = None \<or>
      (\<exists>ball. bowlingBall g = Some ball \<and> physicsImpostor ball = None)"
    then have s: "isBallStopped g = Some True" by (auto simp: isBallStopped_def)
    then have t: "truthy (isBallStopped g)" by (simp add: truthy_def)
    from t have "currentGameState g = BALL_ROLLING \<and> \<not> timerSet (resetTimer g) \<longrightarrow>
             timers (tick now g) = timers g @ [(nextTimerId g, 500, StoppedReset)] \<and>
             resetTimer (tick now g) = Some (nextTimerId g)"
      by (simp add: tick_timers rollingTick_timers)
    with s t show "isBallStopped g = Some True \<and> truthy (isBallStopped g) \<and>
          (currentGameState g = BALL_ROLLING \<and> \<not> timerSet (resetTimer g) \<longrightarrow>
             timers (tick now g) = timers g @ [(nextTimerId g, 500, StoppedReset)] \<and>
             resetTimer (tick now g) = Some (nextTimerId g))" by simp
  qed
  have 2: "\<forall>ball body. bowlingBall g = Some ball \<and> physicsImpostor ball = Some body \<and>
          (linearVelocity body = None \<or> angularVelocity body = None)
      \<longrightarrow> isBallStopped g = None \<and> \<not> truthy (isBallStopped g)"
    by (auto simp: isBallStopped_def truthy_def split: option.splits)
  from 1 2 show ?thesis by blast
qed

lemma nullVelocityGame_ball:
  "bowlingBall nullVelocityGame =
     Some \<lparr>position = BALL_START_POS,
           physicsImpostor = Some \<lparr>linearVelocity = None, angularVelocity = Some Zero,
             appliedImpulses = [(Vector3 0 0 85, BALL_START_POS)]\<rparr>\<rparr>"
  by (simp add: nullVelocityGame_def rollingGame_ball moveBall_def nullVelocity_def)

theorem C10_missing_ball_witness:
  "bowlingBall noBallGame = None
   \<and> currentGameState noBallGame = BALL_ROLLING \<and> \<not> timerSet (resetTimer noBallGame)
   \<and> isBallStopped noBallGame = Some True
   \<and> timers (tick 1800 noBallGame) = [(2, 500, StoppedReset)]
   \<and> resetTimer (tick 1800 noBallGame) = Some 2
   \<and> bowlingBall noBodyGame = Some \<lparr>position = BALL_START_POS, physicsImpostor = None\<rparr>
   \<and> isBallStopped noBodyGame = Some True
   \<and> bowlingBall nullVelocityGame =
        Some \<lparr>position = BALL_START_POS,
           physicsImpostor = Some \<lparr>linearVelocity = None, angularVelocity = Some Zero,
             appliedImpulses = [(Vector3 0 0 85, BALL_START_POS)]\<rparr>\<rparr>
   \<and> isBallStopped nullVelocityGame = None
   \<and> \<not> truthy (isBallStopped nullVelocityGame)"
proof -
  have a1: "bowlingBall noBallGame = None" by (simp add: noBallGame_def)
  have a2: "currentGameState noBallGame = BALL_ROLLING"
    by (simp add: noBallGame_def rollingGame_fields)
  have a3: "\<not> timerSet (resetTimer noBallGame)"
    by (simp add: noBallGame_def rollingGame_fields timerSet_def)
  note ta = C10_missing_ball [of noBallGame 1800]
  from ta a1 have a4: "isBallStopped noBallGame = Some True" by blast
  from ta a1 a2 a3 have "timers (tick 1800 noBallGame) =
      timers noBallGame @ [(nextTimerId noBallGame, 500, StoppedReset)]"
    and "resetTimer (tick 1800 noBallGame) = Some (nextTimerId noBallGame)" by blast+
  then have a5: "timers (tick 1800 noBallGame) = [(2, 500, StoppedReset)]"
    and a6: "resetTimer (tick 1800 noBallGame) = Some 2"
    by (simp_all add: noBallGame_def rollingGame_fields)
  have b1: "bowlingBall noBodyGame = Some \<lparr>position = BALL_START_POS, physicsImpostor = None\<rparr>"
    by (simp add: noBodyGame_def)
  then have "\<exists>ball. bowlingBall noBodyGame = Some ball \<and> physicsImpostor ball = None"
    by simp
  with C10_missing_ball [of noBodyGame] have b2: "isBallStopped noBodyGame = Some True"
    by blast
  note c1 = nullVelocityGame_ball
  from C10_missing_ball [of nullVelocityGame] have
    "\<forall>ball body. bowlingBall nullVelocityGame = Some ball \<and> physicsImpostor ball = Some body \<and>
          (linearVelocity body = None \<or> angularVelocity body = None)
      \<longrightarrow> isBallStopped nullVelocityGame = None \<and> \<not> truthy (isBallStopped nullVelocityGame)"
    by blast
  with c1 have c: "isBallStopped nullVelocityGame = None \<and>
      \<not> truthy (isBallStopped nullVelocityGame)" by fastforce
  note c2 = c [THEN conjunct1] and c3 = c [THEN conjunct2]
  show ?thesis by (intro conjI a1 a2 a3 a4 a5 a6 b1 b2 c1 c2 c3)
qed

end
